theory Spec2Isabelle
  imports Complex_Main
begin

section \<open>Data model (types.ts and matrix-display.ts)\<close>

text \<open>
  The engine is the class \<open>MatrixDisplay\<close>.  Its fields become a record, every method a
  function that takes the record and returns the updated one.  A JavaScript exception
  (here always the \<open>TypeError\<close> of reading a property of \<open>undefined\<close>, or the
  \<open>Error\<close> thrown by the constructor) is the left summand of the result.

  Grid coordinates, z-indices and sizes are JavaScript numbers that the engine uses as
  array indices; they are modelled as \<open>int\<close>.  The fill fraction is a \<open>rat\<close>.

  \<open>Tile\<close> objects are shared: the tile index \<open>tileMap\<close> and the \<open>tiles\<close> arrays of the
  cells hold references to the same objects, and \<open>Object.assign\<close>, \<open>tile.x = ...\<close> change an
  object in place.  So the record has an explicit object store \<open>heap\<close> (a reference is the
  position of the object in the store; a fresh object is appended), and \<open>tileMap\<close> and
  the cells hold references.

  \<open>cells s (x, y)\<close> is \<open>this.cells[y][x]\<close>; it is \<open>None\<close> where JavaScript finds
  \<open>undefined\<close> on the way.
\<close>

type_synonym Color = string
type_synonym TileId = string
type_synonym ref = nat

datatype FillDirection = TOP | RIGHT | BOTTOM | LEFT

datatype LogLevel = NONE | ERROR | WARN | INFO | DEBUG | VERBOSE

primrec levelNum :: "LogLevel \<Rightarrow> nat" where
  "levelNum NONE = 0"
| "levelNum ERROR = 1"
| "levelNum WARN = 2"
| "levelNum INFO = 3"
| "levelNum DEBUG = 4"
| "levelNum VERBOSE = 5"

record Tile =
  tid :: TileId
  tx :: int
  ty :: int
  tchar :: string
  color :: Color
  backgroundColor :: Color
  zIndex :: int
  bgPercent :: rat
  fillDirection :: FillDirection

record Cell =
  overlay :: Color
  tiles :: "ref list"
  isDirty :: bool

record Viewport =
  vpX :: int
  vpY :: int
  vpWidth :: int
  vpHeight :: int

text \<open>The messages handed to \<open>this.log\<close>; the text of a message is abstracted to a
  constructor, with the interpolated values that identify the rejected request.\<close>

datatype Msg =
    ElementIdRequired
  | CanvasNotFound string
  | Initializing
  | InitializationComplete
  | CreatingTile TileId int int
  | MoveNonExistent TileId
  | MoveOutsideBounds int int
  | MovingTile TileId int int
  | UpdateNonExistent TileId
  | UpdatingTile TileId
  | RemoveNonExistent TileId
  | RemovingTile TileId
  | OverlayOutsideBounds int int
  | EmptyOutsideBounds int int
  | SettingViewport int int
  | StartingRender
  | NoDirtyRects
  | DirtyRectBounds
  | RenderedDirtyCells
  | CopyingToDisplay

text \<open>What \<open>renderCell\<close> draws inside the clipped rectangle of one cell, in drawing order
  (pixel geometry is left out).\<close>

datatype DrawOp =
    FillBackground Color FillDirection rat
  | DrawGlyph string Color
  | FillOverlay Color

datatype error = TypeError | ConstructionError

record MatrixDisplay =
  worldWidth :: int
  worldHeight :: int
  cellSize :: int
  worldCanvasWidth :: int
  worldCanvasHeight :: int
  cells :: "int \<times> int \<Rightarrow> Cell option"
  viewport :: Viewport
  dirtyRects :: "(int \<times> int) set"
  tileMap :: "TileId \<Rightarrow> ref option"
  tileIdCounter :: nat
  autoRender :: bool
  logLevel :: LogLevel
  heap :: "Tile list"
  console :: "(LogLevel \<times> Msg) list"
  worldCanvas :: "int \<times> int \<Rightarrow> DrawOp list"
  dateNow :: "nat \<Rightarrow> nat"
  textParser :: "string \<Rightarrow> (string \<times> Color) list"

text \<open>\<open>console\<close> is what reached the browser console; \<open>worldCanvas\<close> is the off-screen
  world buffer, cell by cell; \<open>dateNow s n\<close> is what \<open>Date.now()\<close> returns at the call of
  \<open>generateTileId\<close> that finds the counter at \<open>n\<close>; \<open>textParser s text\<close> is
  \<open>this.textParser.parse(text)\<close>, the segments as pairs (text, color): the class
  \<open>TextParser\<close> is a collaborator whose result is taken as given.  Metrics, fonts and the copy of the
  viewport window to the display canvas are left out.\<close>

record MatrixDisplayConfig =
  elementId :: "string option"
  cfgCellSize :: int
  cfgWorldWidth :: int
  cfgWorldHeight :: int
  cfgViewportWidth :: int
  cfgViewportHeight :: int
  cfgLogLevel :: "LogLevel option"

section \<open>Logging\<close>

definition logMsg :: "LogLevel \<Rightarrow> Msg \<Rightarrow> MatrixDisplay \<Rightarrow> MatrixDisplay" where
  "logMsg lvl m s =
     s\<lparr>console := console s @ (if levelNum lvl \<le> levelNum (logLevel s) then [(lvl, m)] else [])\<rparr>"

section \<open>Construction\<close>

definition initializeCells :: "int \<Rightarrow> int \<Rightarrow> int \<times> int \<Rightarrow> Cell option" where
  "initializeCells width height =
     (\<lambda>(x, y). if 0 \<le> y \<and> y < height \<and> 0 \<le> x \<and> x < width
               then Some \<lparr>overlay = ''#00000000'', tiles = [], isDirty = True\<rparr>
               else None)"

text \<open>\<open>canvasFound\<close> says whether \<open>document.getElementById\<close> finds the element;
  \<open>scale\<close> is \<open>window.devicePixelRatio || 1\<close>, taken integral so that the width of the
  world canvas is exactly \<open>worldWidth * cellSize\<close>.\<close>

definition newMatrixDisplay ::
  "MatrixDisplayConfig \<Rightarrow> (string \<Rightarrow> bool) \<Rightarrow> int \<Rightarrow> (nat \<Rightarrow> nat)
     \<Rightarrow> (string \<Rightarrow> (string \<times> Color) list) \<Rightarrow> error + MatrixDisplay" where
  "newMatrixDisplay options canvasFound scale now parser =
     (case elementId options of
        None \<Rightarrow> Inl ConstructionError
      | Some el \<Rightarrow>
          if el = [] then Inl ConstructionError
          else if \<not> canvasFound el then Inl ConstructionError
          else Inr
            \<lparr>worldWidth = cfgWorldWidth options,
             worldHeight = cfgWorldHeight options,
             cellSize = cfgCellSize options * scale,
             worldCanvasWidth = cfgWorldWidth options * (cfgCellSize options * scale),
             worldCanvasHeight = cfgWorldHeight options * (cfgCellSize options * scale),
             cells = initializeCells (cfgWorldWidth options) (cfgWorldHeight options),
             viewport = \<lparr>vpX = 0, vpY = 0,
                         vpWidth = cfgViewportWidth options,
                         vpHeight = cfgViewportHeight options\<rparr>,
             dirtyRects = {},
             tileMap = (\<lambda>_. None),
             tileIdCounter = 0,
             autoRender = True,
             logLevel = (case cfgLogLevel options of None \<Rightarrow> WARN | Some l \<Rightarrow> l),
             heap = [],
             console =
               (if levelNum INFO \<le> levelNum (case cfgLogLevel options of None \<Rightarrow> WARN | Some l \<Rightarrow> l)
                then [(INFO, Initializing), (INFO, InitializationComplete)] else []),
             worldCanvas = (\<lambda>_. []),
             dateNow = now,
             textParser = parser\<rparr>)"

section \<open>Rendering\<close>

definition paintTile :: "Tile \<Rightarrow> DrawOp list" where
  "paintTile tile =
     (if backgroundColor tile \<noteq> [] \<and> backgroundColor tile \<noteq> ''#00000000'' \<and> 0 < bgPercent tile
      then [FillBackground (backgroundColor tile) (fillDirection tile) (bgPercent tile)]
      else [])
     @ (if tchar tile \<noteq> [] \<and> color tile \<noteq> [] then [DrawGlyph (tchar tile) (color tile)] else [])"

text \<open>\<open>Array.from(cell.tiles.values()).sort((a, b) => a.zIndex - b.zIndex)\<close>: a sorted
  copy; \<open>Array.prototype.sort\<close> is stable, as is \<open>sort_key\<close>.\<close>

definition sortedTiles :: "Tile list \<Rightarrow> ref list \<Rightarrow> ref list" where
  "sortedTiles h ts = sort_key (\<lambda>r. zIndex (h ! r)) ts"

definition renderCell :: "MatrixDisplay \<Rightarrow> Cell \<Rightarrow> DrawOp list" where
  "renderCell s cell =
     concat (map (\<lambda>r. paintTile (heap s ! r)) (sortedTiles (heap s) (tiles cell)))
     @ (if overlay cell \<noteq> [] \<and> overlay cell \<noteq> ''#00000000'' then [FillOverlay (overlay cell)] else [])"

text \<open>The loop \<open>for (const key of this.dirtyRects) this.renderCell(this.cells[y][x], x, y)\<close>:
  the rectangle of every dirty cell is redrawn, the rest of the world canvas stays.  The
  loop throws when \<open>this.cells[y][x]\<close> is \<open>undefined\<close> for a dirty key.\<close>

definition renderDirtyCells :: "MatrixDisplay \<Rightarrow> int \<times> int \<Rightarrow> DrawOp list" where
  "renderDirtyCells s =
     (\<lambda>p. if p \<in> dirtyRects s
           then (case cells s p of Some c \<Rightarrow> renderCell s c | None \<Rightarrow> worldCanvas s p)
           else worldCanvas s p)"

definition render :: "MatrixDisplay \<Rightarrow> error + MatrixDisplay" where
  "render s0 =
     (let s = logMsg VERBOSE StartingRender s0 in
      if dirtyRects s = {} then Inr (logMsg DEBUG NoDirtyRects s)
      else
        let s1 = logMsg DEBUG DirtyRectBounds s in
        if \<exists>p \<in> dirtyRects s1. cells s1 p = None then Inl TypeError
        else
          let s2 = s1\<lparr>worldCanvas := renderDirtyCells s1\<rparr>;
              s3 = logMsg VERBOSE RenderedDirtyCells s2;
              s4 = s3\<lparr>dirtyRects := {}\<rparr>
          in Inr (logMsg DEBUG CopyingToDisplay s4))"

definition renderIfAuto :: "MatrixDisplay \<Rightarrow> error + MatrixDisplay" where
  "renderIfAuto s = (if autoRender s then render s else Inr s)"

definition setAutoRender :: "MatrixDisplay \<Rightarrow> bool \<Rightarrow> MatrixDisplay" where
  "setAutoRender s enabled = s\<lparr>autoRender := enabled\<rparr>"

section \<open>The tile store\<close>

definition bindE :: "error + 'a \<Rightarrow> ('a \<Rightarrow> error + 'b) \<Rightarrow> error + 'b" where
  "bindE m f = (case m of Inl e \<Rightarrow> Inl e | Inr a \<Rightarrow> f a)"

fun digits :: "nat \<Rightarrow> string" where
  "digits n = (if n < 10 then [''0123456789'' ! n]
               else digits (n div 10) @ [''0123456789'' ! (n mod 10)])"

declare digits.simps [simp del]

definition generateTileId :: "MatrixDisplay \<Rightarrow> TileId \<times> MatrixDisplay" where
  "generateTileId s =
     (''t_'' @ digits (dateNow s (tileIdCounter s)) @ ''_'' @ digits (tileIdCounter s),
      s\<lparr>tileIdCounter := tileIdCounter s + 1\<rparr>)"

definition inBounds :: "MatrixDisplay \<Rightarrow> int \<Rightarrow> int \<Rightarrow> bool" where
  "inBounds s x y = (x \<ge> 0 \<and> x < worldWidth s \<and> y \<ge> 0 \<and> y < worldHeight s)"

text \<open>\<open>Array.prototype.findIndex\<close>: the first index whose element satisfies the
  predicate, \<open>-1\<close> when there is none.\<close>

fun findIndex :: "('a \<Rightarrow> bool) \<Rightarrow> 'a list \<Rightarrow> int" where
  "findIndex P [] = -1"
| "findIndex P (a # as) =
     (if P a then 0 else (let i = findIndex P as in if i = -1 then -1 else i + 1))"

text \<open>The list part of \<open>setTileInCell\<close>: \<open>push\<close> or \<open>splice(insertIndex, 0, tile)\<close>.\<close>

definition insertTile :: "Tile list \<Rightarrow> ref \<Rightarrow> ref list \<Rightarrow> ref list" where
  "insertTile h r ts =
     (let insertIndex = findIndex (\<lambda>t. zIndex (h ! t) > zIndex (h ! r)) ts in
      if insertIndex = -1 then ts @ [r]
      else take (nat insertIndex) ts @ r # drop (nat insertIndex) ts)"

definition setTileInCell :: "MatrixDisplay \<Rightarrow> ref \<Rightarrow> error + MatrixDisplay" where
  "setTileInCell s r =
     (let tile = heap s ! r in
      if tx tile \<ge> 0 \<and> tx tile < worldWidth s \<and> ty tile \<ge> 0 \<and> ty tile < worldHeight s then
        (case cells s (tx tile, ty tile) of
           None \<Rightarrow> Inl TypeError
         | Some cell \<Rightarrow>
             Inr (s\<lparr>cells := (cells s)((tx tile, ty tile) \<mapsto>
                         cell\<lparr>tiles := insertTile (heap s) r (tiles cell), isDirty := True\<rparr>),
                    dirtyRects := insert (tx tile, ty tile) (dirtyRects s)\<rparr>))
      else Inr s)"

definition createTile ::
  "MatrixDisplay \<Rightarrow> int \<Rightarrow> int \<Rightarrow> string \<Rightarrow> Color \<Rightarrow> Color \<Rightarrow> int \<Rightarrow> rat \<Rightarrow> FillDirection
     \<Rightarrow> error + (TileId \<times> MatrixDisplay)" where
  "createTile s0 x y ch col bg z bgp fd =
     (let (i, s1) = generateTileId s0;
          s2 = logMsg VERBOSE (CreatingTile i x y) s1;
          tile = \<lparr>tid = i, tx = x, ty = y, tchar = ch, color = col, backgroundColor = bg,
                  zIndex = z, bgPercent = bgp, fillDirection = fd\<rparr>;
          r = length (heap s2);
          s3 = s2\<lparr>heap := heap s2 @ [tile], tileMap := (tileMap s2)(i \<mapsto> r)\<rparr>
      in bindE (setTileInCell s3 r) (\<lambda>s4.
         bindE (renderIfAuto s4) (\<lambda>s5. Inr (i, s5))))"

text \<open>\<open>oldCell.tiles.filter(t => t.id !== tileId)\<close>\<close>

definition withoutId :: "Tile list \<Rightarrow> TileId \<Rightarrow> ref list \<Rightarrow> ref list" where
  "withoutId h tileId ts = filter (\<lambda>t. tid (h ! t) \<noteq> tileId) ts"

definition moveTile :: "MatrixDisplay \<Rightarrow> TileId \<Rightarrow> int \<Rightarrow> int \<Rightarrow> error + MatrixDisplay" where
  "moveTile s tileId newX newY =
     (case tileMap s tileId of
        None \<Rightarrow> Inr (logMsg WARN (MoveNonExistent tileId) s)
      | Some r \<Rightarrow>
          if newX < 0 \<or> newX \<ge> worldWidth s \<or> newY < 0 \<or> newY \<ge> worldHeight s
          then Inr (logMsg WARN (MoveOutsideBounds newX newY) s)
          else
            let s1 = logMsg VERBOSE (MovingTile tileId newX newY) s;
                tile = heap s1 ! r
            in (case cells s1 (tx tile, ty tile) of
                  None \<Rightarrow> Inl TypeError
                | Some oldCell \<Rightarrow>
                    let s2 = s1\<lparr>cells := (cells s1)((tx tile, ty tile) \<mapsto>
                                   oldCell\<lparr>tiles := withoutId (heap s1) tileId (tiles oldCell),
                                           isDirty := True\<rparr>),
                                 dirtyRects := insert (tx tile, ty tile) (dirtyRects s1)\<rparr>;
                        s3 = s2\<lparr>heap := (heap s2)[r := tile\<lparr>tx := newX, ty := newY\<rparr>]\<rparr>
                    in bindE (setTileInCell s3 r) renderIfAuto))"

definition getTile :: "MatrixDisplay \<Rightarrow> TileId \<Rightarrow> Tile option" where
  "getTile s tileId = map_option (\<lambda>r. heap s ! r) (tileMap s tileId)"

record TileUpdates =
  uX :: "int option"
  uY :: "int option"
  uChar :: "string option"
  uColor :: "Color option"
  uBackgroundColor :: "Color option"
  uZIndex :: "int option"
  uBgPercent :: "rat option"
  uFillDirection :: "FillDirection option"

text \<open>\<open>Object.assign(tile, updates)\<close>: every property present in \<open>updates\<close> overwrites
  the tile's.\<close>

definition assign :: "Tile \<Rightarrow> TileUpdates \<Rightarrow> Tile" where
  "assign tile u =
     tile\<lparr>tx := (case uX u of None \<Rightarrow> tx tile | Some v \<Rightarrow> v),
          ty := (case uY u of None \<Rightarrow> ty tile | Some v \<Rightarrow> v),
          tchar := (case uChar u of None \<Rightarrow> tchar tile | Some v \<Rightarrow> v),
          color := (case uColor u of None \<Rightarrow> color tile | Some v \<Rightarrow> v),
          backgroundColor := (case uBackgroundColor u of None \<Rightarrow> backgroundColor tile | Some v \<Rightarrow> v),
          zIndex := (case uZIndex u of None \<Rightarrow> zIndex tile | Some v \<Rightarrow> v),
          bgPercent := (case uBgPercent u of None \<Rightarrow> bgPercent tile | Some v \<Rightarrow> v),
          fillDirection := (case uFillDirection u of None \<Rightarrow> fillDirection tile | Some v \<Rightarrow> v)\<rparr>"

definition updateTile :: "MatrixDisplay \<Rightarrow> TileId \<Rightarrow> TileUpdates \<Rightarrow> error + MatrixDisplay" where
  "updateTile s tileId updates =
     (case tileMap s tileId of
        None \<Rightarrow> Inr (logMsg WARN (UpdateNonExistent tileId) s)
      | Some r \<Rightarrow>
          let s1 = logMsg VERBOSE (UpdatingTile tileId) s;
              s2 = s1\<lparr>heap := (heap s1)[r := assign (heap s1 ! r) updates]\<rparr>;
              tile = heap s2 ! r
          in if uX updates \<noteq> None \<or> uY updates \<noteq> None
             then moveTile s2 tileId (tx tile) (ty tile)
             else (case cells s2 (tx tile, ty tile) of
                     None \<Rightarrow> Inl TypeError
                   | Some cell \<Rightarrow>
                       renderIfAuto
                         (s2\<lparr>cells := (cells s2)((tx tile, ty tile) \<mapsto> cell\<lparr>isDirty := True\<rparr>),
                             dirtyRects := insert (tx tile, ty tile) (dirtyRects s2)\<rparr>)))"

definition removeTile :: "MatrixDisplay \<Rightarrow> TileId \<Rightarrow> error + MatrixDisplay" where
  "removeTile s tileId =
     (case tileMap s tileId of
        None \<Rightarrow> Inr (logMsg WARN (RemoveNonExistent tileId) s)
      | Some r \<Rightarrow>
          let s1 = logMsg VERBOSE (RemovingTile tileId) s;
              tile = heap s1 ! r
          in (case cells s1 (tx tile, ty tile) of
                None \<Rightarrow> Inl TypeError
              | Some cell \<Rightarrow>
                  renderIfAuto
                    (s1\<lparr>cells := (cells s1)((tx tile, ty tile) \<mapsto>
                            cell\<lparr>tiles := withoutId (heap s1) tileId (tiles cell), isDirty := True\<rparr>),
                        dirtyRects := insert (tx tile, ty tile) (dirtyRects s1),
                        tileMap := (tileMap s1)(tileId := None)\<rparr>)))"

text \<open>\<open>forEach\<close> with a callback that may throw: the first exception ends the loop.\<close>

fun forEachE :: "('a \<Rightarrow> 's \<Rightarrow> error + 's) \<Rightarrow> 'a list \<Rightarrow> 's \<Rightarrow> error + 's" where
  "forEachE f [] s = Inr s"
| "forEachE f (a # as) s = (case f a s of Inl e \<Rightarrow> Inl e | Inr s' \<Rightarrow> forEachE f as s')"

text \<open>The array handed to \<open>setTiles\<close> holds tile objects of the caller's; the cell gets a
  list of its own (an array the caller keeps and changes later is not modelled).\<close>

definition setTiles :: "MatrixDisplay \<Rightarrow> int \<Rightarrow> int \<Rightarrow> ref list \<Rightarrow> error + MatrixDisplay" where
  "setTiles s x y ts =
     (case cells s (x, y) of
        None \<Rightarrow> Inl TypeError
      | Some cell \<Rightarrow>
          Inr (s\<lparr>cells := (cells s)((x, y) \<mapsto> cell\<lparr>tiles := ts, isDirty := True\<rparr>),
                 dirtyRects := insert (x, y) (dirtyRects s)\<rparr>))"

definition emptyCell :: "MatrixDisplay \<Rightarrow> int \<Rightarrow> int \<Rightarrow> error + MatrixDisplay" where
  "emptyCell s x y =
     (if x < 0 \<or> x \<ge> worldWidth s \<or> y < 0 \<or> y \<ge> worldHeight s
      then Inr (logMsg WARN (EmptyOutsideBounds x y) s)
      else (case cells s (x, y) of
              None \<Rightarrow> Inl TypeError
            | Some cell \<Rightarrow>
                let tileIds = map (\<lambda>t. tid (heap s ! t)) (tiles cell)
                in forEachE (\<lambda>i d. removeTile d i) tileIds s))"

section \<open>The viewport\<close>



section \<open>Text layout\<close>

definition createString ::
  "MatrixDisplay \<Rightarrow> int \<Rightarrow> int \<Rightarrow> string \<Rightarrow> int \<Rightarrow> error + (TileId list \<times> MatrixDisplay)" where
  "createString s x y text z =
     (let segments = textParser s text in
      bindE (forEachE
               (\<lambda>(segText, segColor).
                  forEachE (\<lambda>ch (currentX, tileIds, d).
                     bindE (createTile d currentX y [ch] segColor ''#000000FF'' z 1 BOTTOM)
                       (\<lambda>(tileId, d'). Inr (currentX + 1, tileIds @ [tileId], d')))
                   segText)
               segments (x, [], s))
        (\<lambda>(currentX, tileIds, d). Inr (tileIds, d)))"

text \<open>\<open>\s\<close> on the characters of \<open>string\<close> (one byte each): tab, line feed, vertical tab,
  form feed, carriage return, space and the no-break space.\<close>

definition isSpace :: "char \<Rightarrow> bool" where
  "isSpace c = (of_char c \<in> {9, 10, 11, 12, 13, 32, 160 :: nat})"

text \<open>\<open>text.split(/(\s+)/)\<close>: the runs of non-blank characters and, since the group
  captures, the runs of blanks between them; a blank run at either end leaves an empty
  string there.\<close>

fun splitRuns :: "bool \<Rightarrow> string \<Rightarrow> string \<Rightarrow> string list" where
  "splitRuns inBlank cur [] = (if inBlank then [cur, []] else [cur])"
| "splitRuns inBlank cur (c # cs) =
     (if isSpace c = inBlank then splitRuns inBlank (cur @ [c]) cs
      else cur # splitRuns (\<not> inBlank) [c] cs)"

definition splitWords :: "string \<Rightarrow> string list" where
  "splitWords text = splitRuns False [] text"

record WrapOptions =
  optZIndex :: "int option"
  optBackgroundColor :: "Color option"
  optTextBackgroundColor :: "Color option"
  optFillBox :: "bool option"
  optPadding :: "int option"

text \<open>The variables of the wrapping loop of \<open>createWrappedString\<close>.\<close>

record WrapState =
  display :: MatrixDisplay
  currentX :: int
  currentY :: int
  lineStart :: int
  currentLineWords :: "(TileId list \<times> string) list"
  tileIds :: "TileId list"

text \<open>The body of \<open>words.forEach\<close>, for the word \<open>word\<close> of a segment of colour
  \<open>segColor\<close>.\<close>

definition placeWord ::
  "int \<Rightarrow> int \<Rightarrow> Color \<Rightarrow> int \<Rightarrow> Color \<Rightarrow> string \<Rightarrow> WrapState \<Rightarrow> error + WrapState" where
  "placeWord x width textBackgroundColor z segColor word w =
     (if word = [] then Inr w
      else
        bindE (forEachE
                 (\<lambda>ch (wordTileIds, d).
                    bindE (createTile d (currentX w + int (length wordTileIds)) (currentY w) [ch]
                             segColor textBackgroundColor z 1 BOTTOM)
                      (\<lambda>(tileId, d'). Inr (wordTileIds @ [tileId], d')))
                 word ([], display w))
          (\<lambda>(wordTileIds, d1).
             let w1 = (if currentX w - lineStart w + int (length word) > width
                          \<and> length (currentLineWords w) > 0
                       then w\<lparr>currentY := currentY w + 1, currentX := x, lineStart := x,
                              currentLineWords := []\<rparr>
                       else w)
             in bindE (forEachE (\<lambda>(tileId, i) d. moveTile d tileId (currentX w1 + int i) (currentY w1))
                         (zip wordTileIds [0..<length wordTileIds]) d1)
                  (\<lambda>d2. Inr (w1\<lparr>display := d2,
                                 currentLineWords := currentLineWords w1 @ [(wordTileIds, word)],
                                 tileIds := tileIds w1 @ wordTileIds,
                                 currentX := currentX w1 + int (length word)\<rparr>))))"

definition createWrappedString ::
  "MatrixDisplay \<Rightarrow> int \<Rightarrow> int \<Rightarrow> int \<Rightarrow> int \<Rightarrow> string \<Rightarrow> WrapOptions
     \<Rightarrow> error + (TileId list \<times> MatrixDisplay)" where
  "createWrappedString s x y width height text options =
     (let z = (case optZIndex options of None \<Rightarrow> 1 | Some v \<Rightarrow> v);
          bgColor = (case optBackgroundColor options of None \<Rightarrow> ''#00000000'' | Some v \<Rightarrow> v);
          textBackgroundColor =
            (case optTextBackgroundColor options of None \<Rightarrow> ''#00000000'' | Some v \<Rightarrow> v);
          fillBox = (case optFillBox options of None \<Rightarrow> False | Some v \<Rightarrow> v);
          padding = (case optPadding options of None \<Rightarrow> 0 | Some v \<Rightarrow> v);
          actualX = x - padding;
          actualY = y - padding;
          actualWidth = width + (padding * 2);
          actualHeight = height + (padding * 2) + 1
      in bindE (if fillBox
                then forEachE
                       (\<lambda>py. forEachE
                          (\<lambda>px (ids, d).
                             bindE (createTile d px py '' '' ''#00000000'' bgColor (z - 1) 1 BOTTOM)
                               (\<lambda>(tileId, d'). Inr (ids @ [tileId], d')))
                          [actualX..actualX + actualWidth - 1])
                       [actualY..actualY + actualHeight - 1] ([], s)
                else Inr ([], s))
          (\<lambda>(ids, d0).
             bindE (forEachE
                      (\<lambda>(segText, segColor).
                         forEachE (placeWord x width textBackgroundColor z segColor) (splitWords segText))
                      (textParser d0 text)
                      \<lparr>display = d0, currentX = x, currentY = y, lineStart = x,
                       currentLineWords = [], tileIds = ids\<rparr>)
               (\<lambda>w. Inr (tileIds w, display w))))"

section \<open>Well-formed states and example displays\<close>

text \<open>The diagnostics of level \<open>WARN\<close> or \<open>ERROR\<close> that reached the console.\<close>

definition warnings :: "MatrixDisplay \<Rightarrow> Msg list" where
  "warnings s = map snd (filter (\<lambda>e. fst e = WARN \<or> fst e = ERROR) (console s))"

text \<open>The grid has a cell exactly at the coordinates of the world extent, as
  \<open>initializeCells\<close> builds it; every dirty coordinate has a cell (so \<open>render\<close> finds
  the cells it repaints); and every reference held by the tile index or by a cell is
  to an object of the store (JavaScript has no dangling references).\<close>

definition wellFormed :: "MatrixDisplay \<Rightarrow> bool" where
  "wellFormed s = ((\<forall>x y. (cells s (x, y) \<noteq> None) = inBounds s x y)
           \<and> (\<forall>p \<in> dirtyRects s. cells s p \<noteq> None)
           \<and> (\<forall>i r. tileMap s i = Some r \<longrightarrow> r < length (heap s))
           \<and> (\<forall>p c. cells s p = Some c \<longrightarrow> (\<forall>r \<in> set (tiles c). r < length (heap s))))"

text \<open>A 3 by 3 world with a 2 by 2 viewport, as the constructor builds it at the default
  log level, and the text parser that returns its input as one white segment.\<close>

definition demoConfig :: MatrixDisplayConfig where
  "demoConfig = \<lparr>elementId = Some ''canvas'', cfgCellSize = 10, cfgWorldWidth = 3,
     cfgWorldHeight = 3, cfgViewportWidth = 2, cfgViewportHeight = 2, cfgLogLevel = None\<rparr>"

definition demo :: MatrixDisplay where
  "demo = \<lparr>worldWidth = 3, worldHeight = 3, cellSize = 10, worldCanvasWidth = 30,
     worldCanvasHeight = 30, cells = initializeCells 3 3,
     viewport = \<lparr>vpX = 0, vpY = 0, vpWidth = 2, vpHeight = 2\<rparr>,
     dirtyRects = {}, tileMap = (\<lambda>_. None), tileIdCounter = 0, autoRender = True,
     logLevel = WARN, heap = [], console = [], worldCanvas = (\<lambda>_. []),
     dateNow = (\<lambda>_. 0), textParser = (\<lambda>t. [(t, ''#FFFFFFFF'')])\<rparr>"

text \<open>The id that the next call of \<open>generateTileId\<close> returns.\<close>

definition newTileId :: "MatrixDisplay \<Rightarrow> TileId" where
  "newTileId s = fst (generateTileId s)"

text \<open>The fields that only the constructor, \<open>setViewport\<close>, \<open>setAutoRender\<close> and
  \<open>setLogLevel\<close> write.\<close>

definition sameConfig :: "MatrixDisplay \<Rightarrow> MatrixDisplay \<Rightarrow> bool" where
  "sameConfig s s' =
     (worldWidth s' = worldWidth s \<and> worldHeight s' = worldHeight s \<and> cellSize s' = cellSize s
      \<and> worldCanvasWidth s' = worldCanvasWidth s \<and> worldCanvasHeight s' = worldCanvasHeight s
      \<and> viewport s' = viewport s \<and> autoRender s' = autoRender s \<and> logLevel s' = logLevel s
      \<and> dateNow s' = dateNow s \<and> textParser s' = textParser s)"

text \<open>The test of \<open>findIndex\<close> in \<open>setTileInCell\<close>: tile \<open>t\<close> has a strictly greater
  z-index than the tile \<open>r\<close> being inserted.\<close>

definition higher :: "Tile list \<Rightarrow> ref \<Rightarrow> ref \<Rightarrow> bool" where
  "higher h r t = (zIndex (h ! r) < zIndex (h ! t))"




text \<open>The 10 by 10 world with a 5 by 5 viewport of the spec's scenario.\<close>

definition demo10 :: MatrixDisplay where
  "demo10 = \<lparr>worldWidth = 10, worldHeight = 10, cellSize = 10, worldCanvasWidth = 100,
     worldCanvasHeight = 100, cells = initializeCells 10 10,
     viewport = \<lparr>vpX = 0, vpY = 0, vpWidth = 5, vpHeight = 5\<rparr>,
     dirtyRects = {}, tileMap = (\<lambda>_. None), tileIdCounter = 0, autoRender = True,
     logLevel = WARN, heap = [], console = [], worldCanvas = (\<lambda>_. []),
     dateNow = (\<lambda>_. 0), textParser = (\<lambda>t. [(t, ''#FFFFFFFF'')])\<rparr>"

text \<open>The 3 by 3 world with auto-render switched off after two calls of \<open>createTile\<close> at
  (1, 1) with z-index 1, and a third tile object for that cell.\<close>

definition tileA :: Tile where
  "tileA = \<lparr>tid = ''t_0_0'', tx = 1, ty = 1, tchar = ''a'', color = ''#FFFFFFFF'',
            backgroundColor = ''#000000FF'', zIndex = 1, bgPercent = 1, fillDirection = BOTTOM\<rparr>"

definition tileB :: Tile where
  "tileB = \<lparr>tid = ''t_0_1'', tx = 1, ty = 1, tchar = ''b'', color = ''#FFFFFFFF'',
            backgroundColor = ''#000000FF'', zIndex = 1, bgPercent = 1, fillDirection = BOTTOM\<rparr>"

definition tileC :: Tile where
  "tileC = \<lparr>tid = ''t_0_2'', tx = 1, ty = 1, tchar = ''c'', color = ''#FFFFFFFF'',
            backgroundColor = ''#000000FF'', zIndex = 1, bgPercent = 1, fillDirection = BOTTOM\<rparr>"

definition demo2 :: MatrixDisplay where
  "demo2 = demo\<lparr>cells := (cells demo)((1, 1) \<mapsto> \<lparr>overlay = ''#00000000'', tiles = [0, 1], isDirty = True\<rparr>),
                dirtyRects := {(1, 1)},
                tileMap := (tileMap demo)(''t_0_0'' \<mapsto> 0, ''t_0_1'' \<mapsto> 1),
                tileIdCounter := 2, autoRender := False, heap := [tileA, tileB]\<rparr>"

text \<open>The empty \<open>updates\<close> object.\<close>

definition noUpdates :: TileUpdates where
  "noUpdates = \<lparr>uX = None, uY = None, uChar = None, uColor = None, uBackgroundColor = None,
                 uZIndex = None, uBgPercent = None, uFillDirection = None\<rparr>"



section \<open>Invariants of the cell lists\<close>

text \<open>The tiles of the cell at \<open>p\<close> (none where the grid has no cell).\<close>

definition tilesAt :: "MatrixDisplay \<Rightarrow> int \<times> int \<Rightarrow> ref list" where
  "tilesAt s p = (case cells s p of None \<Rightarrow> [] | Some c \<Rightarrow> tiles c)"

text \<open>Every cell's list is in ascending z order.\<close>

definition cellsSorted :: "MatrixDisplay \<Rightarrow> bool" where
  "cellsSorted s =
     (\<forall>p c. cells s p = Some c \<longrightarrow> sorted (map (\<lambda>t. zIndex (heap s ! t)) (tiles c)))"

text \<open>Every tile of the index carries the id it is indexed under, is once in the list of the
  cell at its stored coordinates (when the grid has that cell) and in no other list.\<close>

definition tilesPlaced :: "MatrixDisplay \<Rightarrow> bool" where
  "tilesPlaced s =
     (\<forall>i r. tileMap s i = Some r \<longrightarrow>
        tid (heap s ! r) = i
        \<and> (\<forall>p c. cells s p = Some c \<longrightarrow>
              count_list (tiles c) r = (if p = (tx (heap s ! r), ty (heap s ! r)) then 1 else 0)))"

text \<open>Calls of the public operations that change tiles, and sequences of them: the first
  call that throws ends the sequence.  \<open>setTiles\<close> is given references to tile objects.\<close>

datatype Call =
    CreateTile int int string Color Color int rat FillDirection
  | MoveTile TileId int int
  | UpdateTile TileId TileUpdates
  | RemoveTile TileId
  | SetTiles int int "ref list"
  | EmptyCell int int
  | CreateString int int string int
  | CreateWrappedString int int int int string WrapOptions

fun exec :: "Call \<Rightarrow> MatrixDisplay \<Rightarrow> error + MatrixDisplay" where
  "exec (CreateTile x y ch col bg z bgp fd) s =
     bindE (createTile s x y ch col bg z bgp fd) (\<lambda>(i, s'). Inr s')"
| "exec (MoveTile i x y) s = moveTile s i x y"
| "exec (UpdateTile i u) s = updateTile s i u"
| "exec (RemoveTile i) s = removeTile s i"
| "exec (SetTiles x y ts) s = setTiles s x y ts"
| "exec (EmptyCell x y) s = emptyCell s x y"
| "exec (CreateString x y text z) s = bindE (createString s x y text z) (\<lambda>(ids, s'). Inr s')"
| "exec (CreateWrappedString x y width height text options) s =
     bindE (createWrappedString s x y width height text options) (\<lambda>(ids, s'). Inr s')"


fun keepsPlace :: "Call \<Rightarrow> bool" where
  "keepsPlace (UpdateTile i u) = (uX u = None \<and> uY u = None)"
| "keepsPlace (SetTiles x y ts) = False"
| "keepsPlace c = True"

text \<open>Two tiles created in one cell, the higher first; the first is then moved and the
  second recoloured.\<close>

definition demoCalls :: "Call list" where
  "demoCalls = [CreateTile 1 1 ''b'' ''#FFFFFFFF'' ''#000000FF'' 2 1 BOTTOM,
                CreateTile 1 1 ''a'' ''#FFFFFFFF'' ''#000000FF'' 1 1 BOTTOM,
                MoveTile ''t_0_0'' 2 2,
                UpdateTile ''t_0_1'' (noUpdates\<lparr>uColor := Some ''#FF0000FF''\<rparr>)]"
section \<open>Basic facts\<close>

lemma demo_constructed:
  "newMatrixDisplay demoConfig (\<lambda>_. True) 1 (\<lambda>_. 0) (\<lambda>t. [(t, ''#FFFFFFFF'')]) = Inr demo"
  by (simp add: newMatrixDisplay_def demoConfig_def demo_def)

lemma findIndex_ge: "findIndex P xs \<ge> -1"
  by (induction xs) (auto simp: Let_def)

lemma logMsg_fields [simp]:
  "worldWidth (logMsg l m s) = worldWidth s"
  "worldHeight (logMsg l m s) = worldHeight s"
  "cellSize (logMsg l m s) = cellSize s"
  "worldCanvasWidth (logMsg l m s) = worldCanvasWidth s"
  "worldCanvasHeight (logMsg l m s) = worldCanvasHeight s"
  "cells (logMsg l m s) = cells s"
  "viewport (logMsg l m s) = viewport s"
  "dirtyRects (logMsg l m s) = dirtyRects s"
  "tileMap (logMsg l m s) = tileMap s"
  "tileIdCounter (logMsg l m s) = tileIdCounter s"
  "autoRender (logMsg l m s) = autoRender s"
  "logLevel (logMsg l m s) = logLevel s"
  "heap (logMsg l m s) = heap s"
  "worldCanvas (logMsg l m s) = worldCanvas s"
  "dateNow (logMsg l m s) = dateNow s"
  "textParser (logMsg l m s) = textParser s"
  by (simp_all add: logMsg_def)

lemma logMsg_console:
  "console (logMsg l m s) = console s @ (if levelNum l \<le> levelNum (logLevel s) then [(l, m)] else [])"
  by (simp add: logMsg_def)

lemma renderCell_logMsg [simp]: "renderCell (logMsg l m s) c = renderCell s c"
  by (simp add: renderCell_def)

lemma renderDirtyCells_logMsg [simp]: "renderDirtyCells (logMsg l m s) = renderDirtyCells s"
  by (auto simp: renderDirtyCells_def fun_eq_iff split: option.splits)

lemma render_empty:
  "dirtyRects s = {} \<Longrightarrow> render s = Inr (logMsg DEBUG NoDirtyRects (logMsg VERBOSE StartingRender s))"
  by (simp add: render_def)

lemma render_throws:
  "dirtyRects s \<noteq> {} \<Longrightarrow> \<exists>p \<in> dirtyRects s. cells s p = None \<Longrightarrow> render s = Inl TypeError"
  by (simp add: render_def Let_def)

lemma render_paints:
  assumes "dirtyRects s \<noteq> {}" and "\<forall>p \<in> dirtyRects s. cells s p \<noteq> None"
  shows "render s = Inr (logMsg DEBUG CopyingToDisplay
            ((logMsg VERBOSE RenderedDirtyCells
               ((logMsg DEBUG DirtyRectBounds (logMsg VERBOSE StartingRender s))
                  \<lparr>worldCanvas := renderDirtyCells s\<rparr>))\<lparr>dirtyRects := {}\<rparr>))"
proof -
  have "\<not> (\<exists>p \<in> dirtyRects s. cells s p = None)" using assms(2) by blast
  then show ?thesis using assms(1)
    by (simp add: render_def Let_def)
qed

text \<open>A render pass that returns has emptied the dirty set, repainted the dirty cells and
  written trace lines only.\<close>

lemma render_result:
  "render s = Inl TypeError \<or>
   (\<exists>c. render s = Inr (s\<lparr>dirtyRects := {}, console := console s @ c,
                          worldCanvas := renderDirtyCells s\<rparr>)
        \<and> (\<forall>e \<in> set c. fst e \<noteq> WARN \<and> fst e \<noteq> ERROR))"
proof (cases "dirtyRects s = {}")
  case True
  have w: "renderDirtyCells s = worldCanvas s"
    using True by (simp add: renderDirtyCells_def)
  have "render s = Inr (s\<lparr>dirtyRects := {}, console := console s @
      ((if levelNum VERBOSE \<le> levelNum (logLevel s) then [(VERBOSE, StartingRender)] else []) @
       (if levelNum DEBUG \<le> levelNum (logLevel s) then [(DEBUG, NoDirtyRects)] else [])),
       worldCanvas := renderDirtyCells s\<rparr>)"
    unfolding w render_empty[OF True] using True by (simp add: logMsg_def)
  then show ?thesis by fastforce
next
  case False
  show ?thesis
  proof (cases "\<exists>p \<in> dirtyRects s. cells s p = None")
    case True
    with False show ?thesis by (simp add: render_throws)
  next
    case nb: False
    then have ok: "\<forall>p \<in> dirtyRects s. cells s p \<noteq> None" by auto
    have "render s = Inr (s\<lparr>dirtyRects := {}, console := console s @
      ((if levelNum VERBOSE \<le> levelNum (logLevel s) then [(VERBOSE, StartingRender)] else []) @
       (if levelNum DEBUG \<le> levelNum (logLevel s) then [(DEBUG, DirtyRectBounds)] else []) @
       (if levelNum VERBOSE \<le> levelNum (logLevel s) then [(VERBOSE, RenderedDirtyCells)] else []) @
       (if levelNum DEBUG \<le> levelNum (logLevel s) then [(DEBUG, CopyingToDisplay)] else [])),
       worldCanvas := renderDirtyCells s\<rparr>)"
      unfolding render_paints[OF False ok] by (simp add: logMsg_def)
    then show ?thesis by fastforce
  qed
qed

lemma render_ok:
  assumes "\<forall>p \<in> dirtyRects s. cells s p \<noteq> None"
  shows "render s \<noteq> Inl e"
proof (cases "dirtyRects s = {}")
  case True
  show ?thesis unfolding render_empty[OF True] by simp
next
  case False
  show ?thesis unfolding render_paints[OF False assms] by simp
qed

lemma digits_small [simp]:
  "digits 0 = ''0''" "digits 1 = ''1''" "digits 2 = ''2''" "digits 3 = ''3''"
  by (simp_all add: digits.simps)

lemma renderIfAuto_result:
  "renderIfAuto s = Inl TypeError \<or>
   (\<exists>c. renderIfAuto s =
          Inr (s\<lparr>dirtyRects := (if autoRender s then {} else dirtyRects s),
                 console := console s @ c,
                 worldCanvas := (if autoRender s then renderDirtyCells s else worldCanvas s)\<rparr>)
        \<and> (\<forall>e \<in> set c. fst e \<noteq> WARN \<and> fst e \<noteq> ERROR))"
proof (cases "autoRender s")
  case True
  then show ?thesis using render_result[of s] by (simp add: renderIfAuto_def)
next
  case False
  then have "renderIfAuto s = Inr (s\<lparr>dirtyRects := dirtyRects s, console := console s @ [],
                 worldCanvas := worldCanvas s\<rparr>)"
    by (simp add: renderIfAuto_def)
  with False show ?thesis by (intro disjI2 exI[of _ "[]"]) simp
qed

lemma renderIfAuto_ok: "\<forall>p \<in> dirtyRects s. cells s p \<noteq> None \<Longrightarrow> renderIfAuto s \<noteq> Inl e"
  using render_ok[of s e] by (simp add: renderIfAuto_def)

text \<open>When every dirty coordinate has a cell, the render step at the end of an operation
  returns; it changes the dirty set, the console (trace lines only) and the canvas.\<close>

lemma renderIfAuto_returns:
  assumes "\<forall>p \<in> dirtyRects s. cells s p \<noteq> None"
  obtains c where
    "renderIfAuto s =
       Inr (s\<lparr>dirtyRects := (if autoRender s then {} else dirtyRects s),
              console := console s @ c,
              worldCanvas := (if autoRender s then renderDirtyCells s else worldCanvas s)\<rparr>)"
    "\<forall>e \<in> set c. fst e \<noteq> WARN \<and> fst e \<noteq> ERROR"
proof -
  have "renderIfAuto s \<noteq> Inl TypeError" using assms by (rule renderIfAuto_ok)
  with renderIfAuto_result[of s] that show thesis by blast
qed

lemma warnings_append:
  "\<forall>e \<in> set c. fst e \<noteq> WARN \<and> fst e \<noteq> ERROR \<Longrightarrow> console s' = console s @ c
     \<Longrightarrow> warnings s' = warnings s"
  by (simp add: warnings_def)

lemma warnings_logMsg:
  "warnings (logMsg l m s) =
     warnings s @ (if (l = WARN \<or> l = ERROR) \<and> levelNum l \<le> levelNum (logLevel s) then [m] else [])"
  by (simp add: warnings_def logMsg_def)

lemma setTileInCell_inside:
  assumes "tx (heap s ! r) = x" "ty (heap s ! r) = y" "inBounds s x y" "cells s (x, y) = Some c"
  shows "setTileInCell s r =
     Inr (s\<lparr>cells := (cells s)((x, y) \<mapsto> c\<lparr>tiles := insertTile (heap s) r (tiles c), isDirty := True\<rparr>),
            dirtyRects := insert (x, y) (dirtyRects s)\<rparr>)"
  using assms by (simp add: setTileInCell_def inBounds_def Let_def)

lemma setTileInCell_outside:
  assumes "\<not> inBounds s (tx (heap s ! r)) (ty (heap s ! r))"
  shows "setTileInCell s r = Inr s"
  using assms by (auto simp add: setTileInCell_def inBounds_def Let_def)


lemma wf_cell: "wellFormed s \<Longrightarrow> inBounds s x y \<Longrightarrow> \<exists>c. cells s (x, y) = Some c"
  unfolding wellFormed_def by blast

lemma wf_grid: "wellFormed s \<Longrightarrow> (cells s (x, y) \<noteq> None) = inBounds s x y"
  unfolding wellFormed_def by blast

lemma wf_index: "wellFormed s \<Longrightarrow> tileMap s i = Some r \<Longrightarrow> r < length (heap s)"
  unfolding wellFormed_def by blast

lemma wf_cell_refs: "wellFormed s \<Longrightarrow> cells s p = Some c \<Longrightarrow> r \<in> set (tiles c) \<Longrightarrow> r < length (heap s)"
  unfolding wellFormed_def by blast

lemma inBounds_cong [simp]:
  "inBounds (s\<lparr>cells := a\<rparr>) = inBounds s"
  "inBounds (s\<lparr>heap := b\<rparr>) = inBounds s"
  "inBounds (s\<lparr>tileMap := c\<rparr>) = inBounds s"
  "inBounds (s\<lparr>dirtyRects := d\<rparr>) = inBounds s"
  "inBounds (s\<lparr>console := e\<rparr>) = inBounds s"
  "inBounds (s\<lparr>worldCanvas := f\<rparr>) = inBounds s"
  "inBounds (s\<lparr>tileIdCounter := g\<rparr>) = inBounds s"
  "inBounds (s\<lparr>viewport := h\<rparr>) = inBounds s"
  "inBounds (s\<lparr>autoRender := k\<rparr>) = inBounds s"
  "inBounds (logMsg l m s) = inBounds s"
  by (simp_all add: inBounds_def fun_eq_iff)

lemma wf_demo: "wellFormed demo"
  by (auto simp: wellFormed_def demo_def initializeCells_def inBounds_def)

lemma bindE_Inr [simp]: "bindE (Inr a) f = f a"
  by (simp add: bindE_def)

lemma bindE_Inl [simp]: "bindE (Inl e) f = Inl e"
  by (simp add: bindE_def)

lemma renderIfAuto_fields:
  assumes "renderIfAuto s = Inr s'"
  shows "worldWidth s' = worldWidth s" "worldHeight s' = worldHeight s"
    "cellSize s' = cellSize s" "worldCanvasWidth s' = worldCanvasWidth s"
    "worldCanvasHeight s' = worldCanvasHeight s" "cells s' = cells s"
    "viewport s' = viewport s" "tileMap s' = tileMap s"
    "tileIdCounter s' = tileIdCounter s" "autoRender s' = autoRender s"
    "logLevel s' = logLevel s" "heap s' = heap s" "dateNow s' = dateNow s"
    "textParser s' = textParser s"
    "dirtyRects s' = (if autoRender s then {} else dirtyRects s)"
    "warnings s' = warnings s"
    "inBounds s' = inBounds s"
proof -
  from renderIfAuto_result[of s] assms obtain c where
    e: "s' = s\<lparr>dirtyRects := (if autoRender s then {} else dirtyRects s),
                 console := console s @ c,
                 worldCanvas := (if autoRender s then renderDirtyCells s else worldCanvas s)\<rparr>"
    and c: "\<forall>e \<in> set c. fst e \<noteq> WARN \<and> fst e \<noteq> ERROR"
    by auto
  show "worldWidth s' = worldWidth s" "worldHeight s' = worldHeight s"
    "cellSize s' = cellSize s" "worldCanvasWidth s' = worldCanvasWidth s"
    "worldCanvasHeight s' = worldCanvasHeight s" "cells s' = cells s"
    "viewport s' = viewport s" "tileMap s' = tileMap s"
    "tileIdCounter s' = tileIdCounter s" "autoRender s' = autoRender s"
    "logLevel s' = logLevel s" "heap s' = heap s" "dateNow s' = dateNow s"
    "textParser s' = textParser s"
    "dirtyRects s' = (if autoRender s then {} else dirtyRects s)"
    by (simp_all add: e)
  show "warnings s' = warnings s" using c by (simp add: e warnings_def)
  show "inBounds s' = inBounds s" by (simp add: e inBounds_def fun_eq_iff)
qed

lemma renderIfAuto_returns':
  assumes "\<forall>p \<in> dirtyRects s. cells s p \<noteq> None"
  obtains s' where "renderIfAuto s = Inr s'"
proof (cases "renderIfAuto s")
  case (Inl e)
  with renderIfAuto_ok[OF assms, of e] show ?thesis by simp
next
  case (Inr s')
  then show ?thesis by (rule that)
qed


lemma warnings_update [simp]:
  "warnings (s\<lparr>cells := a\<rparr>) = warnings s"
  "warnings (s\<lparr>heap := b\<rparr>) = warnings s"
  "warnings (s\<lparr>tileMap := c\<rparr>) = warnings s"
  "warnings (s\<lparr>dirtyRects := d\<rparr>) = warnings s"
  "warnings (s\<lparr>worldCanvas := f\<rparr>) = warnings s"
  "warnings (s\<lparr>tileIdCounter := g\<rparr>) = warnings s"
  "warnings (s\<lparr>viewport := h\<rparr>) = warnings s"
  "warnings (s\<lparr>autoRender := k\<rparr>) = warnings s"
  by (simp_all add: warnings_def)

lemma warnings_trace [simp]:
  "warnings (logMsg VERBOSE m s) = warnings s"
  "warnings (logMsg DEBUG m s) = warnings s"
  "warnings (logMsg INFO m s) = warnings s"
  by (simp_all add: warnings_def logMsg_def)

lemma createTile_unfold:
  "createTile s x y ch col bg z bgp fd =
     bindE (setTileInCell
              ((logMsg VERBOSE (CreatingTile (newTileId s) x y) (s\<lparr>tileIdCounter := tileIdCounter s + 1\<rparr>))
                 \<lparr>heap := heap s @ [\<lparr>tid = newTileId s, tx = x, ty = y, tchar = ch, color = col,
                     backgroundColor = bg, zIndex = z, bgPercent = bgp, fillDirection = fd\<rparr>],
                  tileMap := (tileMap s)(newTileId s \<mapsto> length (heap s))\<rparr>)
              (length (heap s)))
       (\<lambda>s4. bindE (renderIfAuto s4) (\<lambda>s5. Inr (newTileId s, s5)))"
  by (simp add: createTile_def generateTileId_def newTileId_def Let_def)

lemma createTile_outside:
  assumes out: "\<not> inBounds s x y" and d: "\<forall>p \<in> dirtyRects s. cells s p \<noteq> None"
  obtains s' where
    "createTile s x y ch col bg z bgp fd = Inr (newTileId s, s')"
    "cells s' = cells s"
    "heap s' = heap s @ [\<lparr>tid = newTileId s, tx = x, ty = y, tchar = ch, color = col,
                 backgroundColor = bg, zIndex = z, bgPercent = bgp, fillDirection = fd\<rparr>]"
    "tileMap s' = (tileMap s)(newTileId s \<mapsto> length (heap s))"
    "tileIdCounter s' = tileIdCounter s + 1"
    "dirtyRects s' = (if autoRender s then {} else dirtyRects s)"
    "warnings s' = warnings s"
    "sameConfig s s'"
proof -
  let ?s3 = "(logMsg VERBOSE (CreatingTile (newTileId s) x y) (s\<lparr>tileIdCounter := tileIdCounter s + 1\<rparr>))
                 \<lparr>heap := heap s @ [\<lparr>tid = newTileId s, tx = x, ty = y, tchar = ch, color = col,
                     backgroundColor = bg, zIndex = z, bgPercent = bgp, fillDirection = fd\<rparr>],
                  tileMap := (tileMap s)(newTileId s \<mapsto> length (heap s))\<rparr>"
  have a: "setTileInCell ?s3 (length (heap s)) = Inr ?s3"
    using out by (intro setTileInCell_outside) simp
  have "\<forall>p \<in> dirtyRects ?s3. cells ?s3 p \<noteq> None" using d by simp
  then obtain s' where r: "renderIfAuto ?s3 = Inr s'" by (rule renderIfAuto_returns')
  note f = renderIfAuto_fields[OF r]
  have e: "createTile s x y ch col bg z bgp fd = Inr (newTileId s, s')"
    unfolding createTile_unfold a bindE_Inr r ..
  show thesis
    by (rule that[OF e]) (simp_all add: f sameConfig_def)
qed

lemma createTile_inside:
  assumes inside: "inBounds s x y" and cell: "cells s (x, y) = Some cell"
    and d: "\<forall>p \<in> dirtyRects s. cells s p \<noteq> None"
  obtains s' where
    "createTile s x y ch col bg z bgp fd = Inr (newTileId s, s')"
    "heap s' = heap s @ [\<lparr>tid = newTileId s, tx = x, ty = y, tchar = ch, color = col,
                 backgroundColor = bg, zIndex = z, bgPercent = bgp, fillDirection = fd\<rparr>]"
    "cells s' = (cells s)((x, y) \<mapsto>
        cell\<lparr>tiles := insertTile (heap s') (length (heap s)) (tiles cell), isDirty := True\<rparr>)"
    "tileMap s' = (tileMap s)(newTileId s \<mapsto> length (heap s))"
    "tileIdCounter s' = tileIdCounter s + 1"
    "dirtyRects s' = (if autoRender s then {} else insert (x, y) (dirtyRects s))"
    "warnings s' = warnings s"
    "sameConfig s s'"
proof -
  let ?s3 = "(logMsg VERBOSE (CreatingTile (newTileId s) x y) (s\<lparr>tileIdCounter := tileIdCounter s + 1\<rparr>))
                 \<lparr>heap := heap s @ [\<lparr>tid = newTileId s, tx = x, ty = y, tchar = ch, color = col,
                     backgroundColor = bg, zIndex = z, bgPercent = bgp, fillDirection = fd\<rparr>],
                  tileMap := (tileMap s)(newTileId s \<mapsto> length (heap s))\<rparr>"
  let ?s4 = "?s3\<lparr>cells := (cells ?s3)((x, y) \<mapsto> cell\<lparr>tiles := insertTile (heap ?s3) (length (heap s)) (tiles cell), isDirty := True\<rparr>),
            dirtyRects := insert (x, y) (dirtyRects ?s3)\<rparr>"
  have a: "setTileInCell ?s3 (length (heap s)) = Inr ?s4"
    using inside cell by (intro setTileInCell_inside) simp_all
  have "\<forall>p \<in> dirtyRects ?s4. cells ?s4 p \<noteq> None" using d by simp
  then obtain s' where r: "renderIfAuto ?s4 = Inr s'" by (rule renderIfAuto_returns')
  note f = renderIfAuto_fields[OF r]
  have e: "createTile s x y ch col bg z bgp fd = Inr (newTileId s, s')"
    unfolding createTile_unfold a bindE_Inr r ..
  show thesis
    by (rule that[OF e]) (simp_all add: f sameConfig_def)
qed

lemma removeTile_known:
  assumes known: "tileMap s i = Some r"
    and cell: "cells s (tx (heap s ! r), ty (heap s ! r)) = Some cell"
    and d: "\<forall>p \<in> dirtyRects s. cells s p \<noteq> None"
  obtains s' where
    "removeTile s i = Inr s'"
    "heap s' = heap s"
    "cells s' = (cells s)((tx (heap s ! r), ty (heap s ! r)) \<mapsto>
        cell\<lparr>tiles := withoutId (heap s) i (tiles cell), isDirty := True\<rparr>)"
    "tileMap s' = (tileMap s)(i := None)"
    "tileIdCounter s' = tileIdCounter s"
    "dirtyRects s' = (if autoRender s then {}
                      else insert (tx (heap s ! r), ty (heap s ! r)) (dirtyRects s))"
    "warnings s' = warnings s"
    "sameConfig s s'"
proof -
  let ?p = "(tx (heap s ! r), ty (heap s ! r))"
  let ?s1 = "logMsg VERBOSE (RemovingTile i) s"
  let ?s2 = "?s1\<lparr>cells := (cells ?s1)(?p \<mapsto> cell\<lparr>tiles := withoutId (heap ?s1) i (tiles cell), isDirty := True\<rparr>),
                dirtyRects := insert ?p (dirtyRects ?s1),
                tileMap := (tileMap ?s1)(i := None)\<rparr>"
  have a: "removeTile s i = renderIfAuto ?s2"
    using known cell by (simp add: removeTile_def Let_def)
  have "\<forall>p \<in> dirtyRects ?s2. cells ?s2 p \<noteq> None" using d by simp
  then obtain s' where r: "renderIfAuto ?s2 = Inr s'" by (rule renderIfAuto_returns')
  note f = renderIfAuto_fields[OF r]
  have e: "removeTile s i = Inr s'" unfolding a r ..
  show thesis
    by (rule that[OF e]) (simp_all add: f sameConfig_def)
qed

lemma moveTile_unknown:
  "tileMap s i = None \<Longrightarrow> moveTile s i nx ny = Inr (logMsg WARN (MoveNonExistent i) s)"
  by (simp add: moveTile_def)

lemma moveTile_dest_outside:
  "tileMap s i = Some r \<Longrightarrow> \<not> inBounds s nx ny
     \<Longrightarrow> moveTile s i nx ny = Inr (logMsg WARN (MoveOutsideBounds nx ny) s)"
  by (auto simp add: moveTile_def inBounds_def)

lemma moveTile_stored_outside:
  "tileMap s i = Some r \<Longrightarrow> inBounds s nx ny
     \<Longrightarrow> cells s (tx (heap s ! r), ty (heap s ! r)) = None
     \<Longrightarrow> moveTile s i nx ny = Inl TypeError"
  by (auto simp add: moveTile_def inBounds_def Let_def)

lemma moveTile_known:
  assumes known: "tileMap s i = Some r" and alloc: "r < length (heap s)"
    and dest: "inBounds s nx ny"
    and old: "cells s (tx (heap s ! r), ty (heap s ! r)) = Some oldCell"
    and dc: "((cells s)((tx (heap s ! r), ty (heap s ! r)) \<mapsto>
               oldCell\<lparr>tiles := withoutId (heap s) i (tiles oldCell), isDirty := True\<rparr>)) (nx, ny)
             = Some destCell"
    and d: "\<forall>p \<in> dirtyRects s. cells s p \<noteq> None"
  obtains s' where
    "moveTile s i nx ny = Inr s'"
    "heap s' = (heap s)[r := (heap s ! r)\<lparr>tx := nx, ty := ny\<rparr>]"
    "cells s' = ((cells s)((tx (heap s ! r), ty (heap s ! r)) \<mapsto>
               oldCell\<lparr>tiles := withoutId (heap s) i (tiles oldCell), isDirty := True\<rparr>))
             ((nx, ny) \<mapsto> destCell\<lparr>tiles := insertTile (heap s') r (tiles destCell), isDirty := True\<rparr>)"
    "tileMap s' = tileMap s"
    "tileIdCounter s' = tileIdCounter s"
    "dirtyRects s' = (if autoRender s then {}
                      else insert (nx, ny) (insert (tx (heap s ! r), ty (heap s ! r)) (dirtyRects s)))"
    "warnings s' = warnings s"
    "sameConfig s s'"
proof -
  let ?p = "(tx (heap s ! r), ty (heap s ! r))"
  let ?s1 = "logMsg VERBOSE (MovingTile i nx ny) s"
  let ?s2 = "?s1\<lparr>cells := (cells ?s1)(?p \<mapsto> oldCell\<lparr>tiles := withoutId (heap ?s1) i (tiles oldCell), isDirty := True\<rparr>),
                dirtyRects := insert ?p (dirtyRects ?s1)\<rparr>"
  let ?s3 = "?s2\<lparr>heap := (heap ?s2)[r := (heap ?s1 ! r)\<lparr>tx := nx, ty := ny\<rparr>]\<rparr>"
  let ?s4 = "?s3\<lparr>cells := (cells ?s3)((nx, ny) \<mapsto>
                destCell\<lparr>tiles := insertTile (heap ?s3) r (tiles destCell), isDirty := True\<rparr>),
            dirtyRects := insert (nx, ny) (dirtyRects ?s3)\<rparr>"
  have a: "moveTile s i nx ny = bindE (setTileInCell ?s3 r) renderIfAuto"
    using known dest old by (simp add: moveTile_def Let_def inBounds_def)
  have b: "setTileInCell ?s3 r = Inr ?s4"
    using alloc dest dc by (intro setTileInCell_inside) simp_all
  have "\<forall>p \<in> dirtyRects ?s4. cells ?s4 p \<noteq> None" using d by simp
  then obtain s' where r: "renderIfAuto ?s4 = Inr s'" by (rule renderIfAuto_returns')
  note f = renderIfAuto_fields[OF r]
  have e: "moveTile s i nx ny = Inr s'" unfolding a b bindE_Inr r ..
  show thesis
    by (rule that[OF e]) (simp_all add: f sameConfig_def)
qed


subsection \<open>The list operations\<close>

lemma findIndex_none: "\<forall>x \<in> set xs. \<not> P x \<Longrightarrow> findIndex P xs = -1"
  by (induction xs) auto

lemma findIndex_some:
  "\<exists>x \<in> set xs. P x \<Longrightarrow> findIndex P xs = int (length (takeWhile (\<lambda>x. \<not> P x) xs))"
proof (induction xs)
  case Nil
  then show ?case by simp
next
  case (Cons a xs)
  show ?case
  proof (cases "P a")
    case True
    then show ?thesis by simp
  next
    case False
    with Cons.prems have "\<exists>x \<in> set xs. P x" by simp
    from Cons.IH[OF this] False show ?thesis by (simp add: Let_def)
  qed
qed

text \<open>\<open>setTileInCell\<close> puts the tile before the first tile of strictly greater z-index.\<close>

lemma insertTile_eq:
  "insertTile h r ts =
     takeWhile (\<lambda>t. \<not> higher h r t) ts @ r # dropWhile (\<lambda>t. \<not> higher h r t) ts"
proof (cases "\<exists>t \<in> set ts. higher h r t")
  case True
  have i: "findIndex (higher h r) ts = int (length (takeWhile (\<lambda>t. \<not> higher h r t) ts))"
    by (rule findIndex_some[OF True])
  have f: "(\<lambda>t. zIndex (h ! t) > zIndex (h ! r)) = higher h r"
    by (simp add: higher_def fun_eq_iff)
  have t: "take (length (takeWhile (\<lambda>t. \<not> higher h r t) ts)) ts = takeWhile (\<lambda>t. \<not> higher h r t) ts"
    by (rule takeWhile_eq_take[symmetric])
  have d: "drop (length (takeWhile (\<lambda>t. \<not> higher h r t) ts)) ts = dropWhile (\<lambda>t. \<not> higher h r t) ts"
    by (rule dropWhile_eq_drop[symmetric])
  show ?thesis unfolding insertTile_def f i Let_def using t d by simp
next
  case False
  then have n: "\<forall>t \<in> set ts. \<not> higher h r t" by simp
  have f: "(\<lambda>t. zIndex (h ! t) > zIndex (h ! r)) = higher h r"
    by (simp add: higher_def fun_eq_iff)
  have i: "findIndex (higher h r) ts = -1"
    by (rule findIndex_none[OF n])
  have t: "takeWhile (\<lambda>t. \<not> higher h r t) ts = ts"
    using n by (simp add: takeWhile_eq_all_conv)
  have d: "dropWhile (\<lambda>t. \<not> higher h r t) ts = []"
    using n by simp
  show ?thesis unfolding insertTile_def f i Let_def t d by simp
qed

lemma set_insertTile [simp]: "set (insertTile h r ts) = insert r (set ts)"
proof -
  have "set (takeWhile (\<lambda>t. \<not> higher h r t) ts) \<union> set (dropWhile (\<lambda>t. \<not> higher h r t) ts) = set ts"
    by (metis set_append takeWhile_dropWhile_id)
  then show ?thesis unfolding insertTile_eq by auto
qed

lemma count_list_insertTile:
  "count_list (insertTile h r ts) q = count_list ts q + (if q = r then 1 else 0)"
proof -
  have "count_list (takeWhile (\<lambda>t. \<not> higher h r t) ts) q
        + count_list (dropWhile (\<lambda>t. \<not> higher h r t) ts) q = count_list ts q"
    by (metis count_list_append takeWhile_dropWhile_id)
  then show ?thesis unfolding insertTile_eq by (cases "q = r") (auto simp: count_list_append)
qed

lemma sorted_insertTile:
  assumes "sorted (map (\<lambda>t. zIndex (h ! t)) ts)"
  shows "sorted (map (\<lambda>t. zIndex (h ! t)) (insertTile h r ts))"
proof -
  let ?P = "\<lambda>t. \<not> higher h r t"
  let ?z = "\<lambda>t. zIndex (h ! t)"
  have split: "takeWhile ?P ts @ dropWhile ?P ts = ts" by simp
  have "sorted (map ?z (takeWhile ?P ts) @ map ?z (dropWhile ?P ts))"
    using assms by (metis map_append takeWhile_dropWhile_id)
  then have s1: "sorted (map ?z (takeWhile ?P ts))" and s2: "sorted (map ?z (dropWhile ?P ts))"
    by (simp_all add: sorted_append)
  have le: "\<forall>t \<in> set (takeWhile ?P ts). ?z t \<le> ?z r"
    by (auto dest: set_takeWhileD simp: higher_def not_less)
  have ge: "\<forall>t \<in> set (dropWhile ?P ts). ?z r < ?z t"
  proof (cases "dropWhile ?P ts")
    case Nil
    show ?thesis unfolding Nil by simp
  next
    case (Cons a as)
    then have "dropWhile ?P ts \<noteq> []" by simp
    then have "\<not> ?P (hd (dropWhile ?P ts))" by (rule hd_dropWhile)
    then have a: "?z r < ?z a" using Cons by (simp add: higher_def)
    from s2 Cons have "\<forall>t \<in> set as. ?z a \<le> ?z t" by simp
    with a show ?thesis unfolding Cons by auto
  qed
  have "sorted (map ?z (takeWhile ?P ts) @ ?z r # map ?z (dropWhile ?P ts))"
    unfolding sorted_append using s1 s2 le ge by (fastforce simp: sorted_append)
  then show ?thesis unfolding insertTile_eq by simp
qed


lemma set_withoutId: "set (withoutId h i ts) = {t \<in> set ts. tid (h ! t) \<noteq> i}"
  by (simp add: withoutId_def)

lemma count_list_withoutId:
  "count_list (withoutId h i ts) q = (if tid (h ! q) = i then 0 else count_list ts q)"
  unfolding withoutId_def by (induction ts) auto


lemma digits_Suc [simp]:
  "digits (Suc 0) = ''1''" "digits (Suc (Suc 0)) = ''2''" "digits (Suc (Suc (Suc 0))) = ''3''"
  by (simp_all add: digits.simps)

lemma demo2_reached:
  "bindE (createTile (setAutoRender demo False) 1 1 ''a'' ''#FFFFFFFF'' ''#000000FF'' 1 1 BOTTOM)
     (\<lambda>(a, s). createTile s 1 1 ''b'' ''#FFFFFFFF'' ''#000000FF'' 1 1 BOTTOM) = Inr (''t_0_1'', demo2)"
  by (simp add: demo2_def tileA_def tileB_def demo_def initializeCells_def createTile_def
      generateTileId_def setAutoRender_def
      logMsg_def setTileInCell_def renderIfAuto_def insertTile_def Let_def)

lemma wf_demo2: "wellFormed demo2"
  by (auto simp: wellFormed_def demo2_def demo_def initializeCells_def inBounds_def)

lemma demo10_constructed:
  "newMatrixDisplay \<lparr>elementId = Some ''canvas'', cfgCellSize = 10, cfgWorldWidth = 10,
     cfgWorldHeight = 10, cfgViewportWidth = 5, cfgViewportHeight = 5, cfgLogLevel = None\<rparr>
     (\<lambda>_. True) 1 (\<lambda>_. 0) (\<lambda>t. [(t, ''#FFFFFFFF'')]) = Inr demo10"
  by (simp add: newMatrixDisplay_def demo10_def)





lemma renderIfAuto_canvas:
  assumes "renderIfAuto s = Inr s'"
  shows "worldCanvas s' = (if autoRender s then renderDirtyCells s else worldCanvas s)"
proof -
  from renderIfAuto_result[of s] assms obtain c where
    e: "s' = s\<lparr>dirtyRects := (if autoRender s then {} else dirtyRects s),
                 console := console s @ c,
                 worldCanvas := (if autoRender s then renderDirtyCells s else worldCanvas s)\<rparr>"
    by auto
  show ?thesis by (simp add: e)
qed


lemma dropWhile_higher:
  assumes "sorted (map (\<lambda>t. zIndex (h ! t)) ts)"
  shows "\<forall>t \<in> set (dropWhile (\<lambda>t. \<not> higher h r t) ts). zIndex (h ! r) < zIndex (h ! t)"
proof -
  let ?P = "\<lambda>t. \<not> higher h r t"
  let ?z = "\<lambda>t. zIndex (h ! t)"
  have "sorted (map ?z (takeWhile ?P ts) @ map ?z (dropWhile ?P ts))"
    using assms by (metis map_append takeWhile_dropWhile_id)
  then have s2: "sorted (map ?z (dropWhile ?P ts))" by (simp add: sorted_append)
  show ?thesis
  proof (cases "dropWhile ?P ts")
    case Nil
    show ?thesis unfolding Nil by simp
  next
    case (Cons a as)
    then have "dropWhile ?P ts \<noteq> []" by simp
    then have "\<not> ?P (hd (dropWhile ?P ts))" by (rule hd_dropWhile)
    then have a: "?z r < ?z a" using Cons by (simp add: higher_def)
    from s2 Cons have "\<forall>t \<in> set as. ?z a \<le> ?z t" by simp
    with a show ?thesis unfolding Cons by auto
  qed
qed

lemma sortedTiles_sorted_id:
  "sorted (map (\<lambda>t. zIndex (h ! t)) ts) \<Longrightarrow> sortedTiles h ts = ts"
  unfolding sortedTiles_def by (rule sort_key_id_if_sorted)

text \<open>In an ascending list, a tile inserted at the z-index of a tile of the list ends up
  behind it, in the list and in the order in which \<open>renderCell\<close> paints.\<close>

lemma insertTile_behind_equal:
  assumes s: "sorted (map (\<lambda>t. zIndex (h ! t)) ts)" and a: "a \<in> set ts" and b: "b \<notin> set ts"
    and z: "zIndex (h ! a) = zIndex (h ! b)"
  shows "\<exists>pre post. sortedTiles h (insertTile h b ts) = pre @ b # post \<and> a \<in> set pre \<and> b \<notin> set pre"
proof -
  let ?P = "\<lambda>t. \<not> higher h b t"
  have id: "sortedTiles h (insertTile h b ts) = insertTile h b ts"
    by (rule sortedTiles_sorted_id[OF sorted_insertTile[OF s]])
  have "a \<notin> set (dropWhile ?P ts)" using dropWhile_higher[OF s, of b] z by auto
  moreover have "a \<in> set (takeWhile ?P ts) \<union> set (dropWhile ?P ts)"
    using a by (metis set_append takeWhile_dropWhile_id)
  ultimately have 1: "a \<in> set (takeWhile ?P ts)" by simp
  have 2: "b \<notin> set (takeWhile ?P ts)" using b by (auto dest: set_takeWhileD)
  have "insertTile h b ts = takeWhile ?P ts @ b # dropWhile ?P ts" by (rule insertTile_eq)
  with 1 2 show ?thesis unfolding id by blast
qed


lemma renderCell_heap: "heap s = heap s' \<Longrightarrow> renderCell s c = renderCell s' c"
  by (simp add: renderCell_def)

lemma createTile_inside_painted:
  assumes inside: "inBounds s x y" and cell: "cells s (x, y) = Some cell"
    and d: "\<forall>p \<in> dirtyRects s. cells s p \<noteq> None"
  obtains s' where
    "createTile s x y ch col bg z bgp fd = Inr (newTileId s, s')"
    "heap s' = heap s @ [\<lparr>tid = newTileId s, tx = x, ty = y, tchar = ch, color = col,
                 backgroundColor = bg, zIndex = z, bgPercent = bgp, fillDirection = fd\<rparr>]"
    "cells s' = (cells s)((x, y) \<mapsto>
        cell\<lparr>tiles := insertTile (heap s') (length (heap s)) (tiles cell), isDirty := True\<rparr>)"
    "tileMap s' = (tileMap s)(newTileId s \<mapsto> length (heap s))"
    "tileIdCounter s' = tileIdCounter s + 1"
    "dirtyRects s' = (if autoRender s then {} else insert (x, y) (dirtyRects s))"
    "warnings s' = warnings s"
    "sameConfig s s'"
    "autoRender s \<longrightarrow> worldCanvas s' (x, y) =
        renderCell s' (cell\<lparr>tiles := insertTile (heap s') (length (heap s)) (tiles cell), isDirty := True\<rparr>)"
proof -
  let ?s3 = "(logMsg VERBOSE (CreatingTile (newTileId s) x y) (s\<lparr>tileIdCounter := tileIdCounter s + 1\<rparr>))
                 \<lparr>heap := heap s @ [\<lparr>tid = newTileId s, tx = x, ty = y, tchar = ch, color = col,
                     backgroundColor = bg, zIndex = z, bgPercent = bgp, fillDirection = fd\<rparr>],
                  tileMap := (tileMap s)(newTileId s \<mapsto> length (heap s))\<rparr>"
  let ?c = "cell\<lparr>tiles := insertTile (heap ?s3) (length (heap s)) (tiles cell), isDirty := True\<rparr>"
  let ?s4 = "?s3\<lparr>cells := (cells ?s3)((x, y) \<mapsto> ?c),
            dirtyRects := insert (x, y) (dirtyRects ?s3)\<rparr>"
  have a: "setTileInCell ?s3 (length (heap s)) = Inr ?s4"
    using inside cell by (intro setTileInCell_inside) simp_all
  have "\<forall>p \<in> dirtyRects ?s4. cells ?s4 p \<noteq> None" using d by simp
  then obtain s' where r: "renderIfAuto ?s4 = Inr s'" by (rule renderIfAuto_returns')
  note f = renderIfAuto_fields[OF r]
  have e: "createTile s x y ch col bg z bgp fd = Inr (newTileId s, s')"
    unfolding createTile_unfold a bindE_Inr r ..
  have hh: "heap ?s4 = heap s'" by (simp add: f)
  have cv: "autoRender s \<longrightarrow> worldCanvas s' (x, y) = renderCell s' ?c"
  proof
    assume "autoRender s"
    then have "worldCanvas s' = renderDirtyCells ?s4" using renderIfAuto_canvas[OF r] by simp
    then have "worldCanvas s' (x, y) = renderCell ?s4 ?c" by (simp add: renderDirtyCells_def)
    then show "worldCanvas s' (x, y) = renderCell s' ?c" using renderCell_heap[OF hh] by simp
  qed
  show thesis
    by (rule that[OF e]) (use cv in \<open>simp_all add: f sameConfig_def\<close>)
qed



section \<open>Preservation of the invariants\<close>

lemma sameConfig_inBounds: "sameConfig s s' \<Longrightarrow> inBounds s' = inBounds s"
  by (simp add: sameConfig_def inBounds_def fun_eq_iff)

lemma inBounds_logMsg: "inBounds (logMsg l m s) = inBounds s"
  by simp

lemma wellFormed_logMsg [simp]: "wellFormed (logMsg l m s) = wellFormed s"
  by (simp add: wellFormed_def)

lemma wellFormedI:
  assumes "wellFormed s"
    and "inBounds s' = inBounds s"
    and "\<And>p. (cells s' p \<noteq> None) = (cells s p \<noteq> None)"
    and "dirtyRects s' \<subseteq> {p. cells s p \<noteq> None}"
    and "\<And>i r. tileMap s' i = Some r \<Longrightarrow> r < length (heap s')"
    and "\<And>p c r. cells s' p = Some c \<Longrightarrow> r \<in> set (tiles c) \<Longrightarrow> r < length (heap s')"
  shows "wellFormed s'"
proof -
  have g: "\<forall>x y. (cells s' (x, y) \<noteq> None) = inBounds s' x y"
    using assms(1) unfolding assms(2) assms(3) wellFormed_def by blast
  have d: "\<forall>p \<in> dirtyRects s'. cells s' p \<noteq> None"
    using assms(4) unfolding assms(3) by blast
  show ?thesis unfolding wellFormed_def using g d assms(5,6) by blast
qed

lemma wf_dirty_all: "wellFormed s \<Longrightarrow> \<forall>p \<in> dirtyRects s. cells s p \<noteq> None"
  by (simp add: wellFormed_def)

lemma createTile_wellFormed:
  assumes wf: "wellFormed s" and e: "createTile s x y ch col bg z bgp fd = Inr (i, s')"
  shows "wellFormed s'"
proof (cases "inBounds s x y")
  case True
  obtain cell where cell: "cells s (x, y) = Some cell" using wf_cell[OF wf True] by blast
  obtain s1 where e1: "createTile s x y ch col bg z bgp fd = Inr (newTileId s, s1)"
    and h: "heap s1 = heap s @ [\<lparr>tid = newTileId s, tx = x, ty = y, tchar = ch, color = col,
                 backgroundColor = bg, zIndex = z, bgPercent = bgp, fillDirection = fd\<rparr>]"
    and cs: "cells s1 = (cells s)((x, y) \<mapsto>
        cell\<lparr>tiles := insertTile (heap s1) (length (heap s)) (tiles cell), isDirty := True\<rparr>)"
    and tm: "tileMap s1 = (tileMap s)(newTileId s \<mapsto> length (heap s))"
    and dr: "dirtyRects s1 = (if autoRender s then {} else insert (x, y) (dirtyRects s))"
    and sc: "sameConfig s s1"
    by (rule createTile_inside[OF True cell wf_dirty_all[OF wf], of ch col bg z bgp fd])
  have s': "s' = s1" using e e1 by simp
  show ?thesis unfolding s'
  proof (rule wellFormedI[OF wf])
    show "inBounds s1 = inBounds s" by (rule sameConfig_inBounds[OF sc])
    show "(cells s1 p \<noteq> None) = (cells s p \<noteq> None)" for p using cell by (simp add: cs)
    show "dirtyRects s1 \<subseteq> {p. cells s p \<noteq> None}"
      using wf_dirty_all[OF wf] cell by (auto simp: dr)
    show "r < length (heap s1)" if "tileMap s1 j = Some r" for j r
      using that wf_index[OF wf, of j r] by (auto simp: tm h split: if_splits)
    show "r < length (heap s1)" if "cells s1 p = Some c" "r \<in> set (tiles c)" for p c r
    proof (cases "p = (x, y)")
      case True
      with that have "r = length (heap s) \<or> r \<in> set (tiles cell)" by (auto simp: cs)
      then show ?thesis using wf_cell_refs[OF wf cell, of r] by (auto simp: h)
    next
      case False
      with that have "cells s p = Some c" by (simp add: cs)
      from wf_cell_refs[OF wf this that(2)] show ?thesis by (simp add: h)
    qed
  qed
next
  case False
  obtain s1 where e1: "createTile s x y ch col bg z bgp fd = Inr (newTileId s, s1)"
    and cs: "cells s1 = cells s"
    and h: "heap s1 = heap s @ [\<lparr>tid = newTileId s, tx = x, ty = y, tchar = ch, color = col,
                 backgroundColor = bg, zIndex = z, bgPercent = bgp, fillDirection = fd\<rparr>]"
    and tm: "tileMap s1 = (tileMap s)(newTileId s \<mapsto> length (heap s))"
    and dr: "dirtyRects s1 = (if autoRender s then {} else dirtyRects s)"
    and sc: "sameConfig s s1"
    by (rule createTile_outside[OF False wf_dirty_all[OF wf], of ch col bg z bgp fd])
  have s': "s' = s1" using e e1 by simp
  show ?thesis unfolding s'
  proof (rule wellFormedI[OF wf])
    show "inBounds s1 = inBounds s" by (rule sameConfig_inBounds[OF sc])
    show "(cells s1 p \<noteq> None) = (cells s p \<noteq> None)" for p by (simp add: cs)
    show "dirtyRects s1 \<subseteq> {p. cells s p \<noteq> None}"
      using wf_dirty_all[OF wf] by (auto simp: dr)
    show "r < length (heap s1)" if "tileMap s1 j = Some r" for j r
      using that wf_index[OF wf, of j r] by (auto simp: tm h split: if_splits)
    show "r < length (heap s1)" if "cells s1 p = Some c" "r \<in> set (tiles c)" for p c r
      using wf_cell_refs[OF wf, of p c r] that by (simp add: cs h)
  qed
qed

text \<open>What a call of \<open>moveTile\<close> that returns has done.\<close>

lemma moveTile_cases:
  assumes wf: "wellFormed s" and e: "moveTile s i nx ny = Inr s'"
  obtains (rejected) m where "s' = logMsg WARN m s"
      "tileMap s i = None \<or> \<not> inBounds s nx ny"
  | (moved) r oldCell destCell where
      "tileMap s i = Some r" "r < length (heap s)" "inBounds s nx ny"
      "inBounds s (tx (heap s ! r)) (ty (heap s ! r))"
      "cells s (tx (heap s ! r), ty (heap s ! r)) = Some oldCell"
      "((cells s)((tx (heap s ! r), ty (heap s ! r)) \<mapsto>
               oldCell\<lparr>tiles := withoutId (heap s) i (tiles oldCell), isDirty := True\<rparr>)) (nx, ny)
             = Some destCell"
      "heap s' = (heap s)[r := (heap s ! r)\<lparr>tx := nx, ty := ny\<rparr>]"
      "cells s' = ((cells s)((tx (heap s ! r), ty (heap s ! r)) \<mapsto>
               oldCell\<lparr>tiles := withoutId (heap s) i (tiles oldCell), isDirty := True\<rparr>))
             ((nx, ny) \<mapsto> destCell\<lparr>tiles := insertTile (heap s') r (tiles destCell), isDirty := True\<rparr>)"
      "tileMap s' = tileMap s"
      "dirtyRects s' = (if autoRender s then {}
                      else insert (nx, ny) (insert (tx (heap s ! r), ty (heap s ! r)) (dirtyRects s)))"
      "warnings s' = warnings s"
      "sameConfig s s'"
proof (cases "tileMap s i")
  case None
  from moveTile_unknown[OF None, of nx ny] e have "s' = logMsg WARN (MoveNonExistent i) s" by simp
  then show ?thesis using None by (intro rejected) simp_all
next
  case (Some r)
  show ?thesis
  proof (cases "inBounds s nx ny")
    case False
    from moveTile_dest_outside[OF Some False] e have "s' = logMsg WARN (MoveOutsideBounds nx ny) s"
      by simp
    then show ?thesis using False by (intro rejected) simp_all
  next
    case True
    let ?p = "(tx (heap s ! r), ty (heap s ! r))"
    have alloc: "r < length (heap s)" using wf Some by (rule wf_index)
    show ?thesis
    proof (cases "cells s ?p")
      case None
      from moveTile_stored_outside[OF Some True None] e show ?thesis by simp
    next
      case (Some oldCell)
      have ib: "inBounds s (tx (heap s ! r)) (ty (heap s ! r))"
        using wf_grid[OF wf, of "tx (heap s ! r)" "ty (heap s ! r)"] Some by simp
      let ?C = "(cells s)(?p \<mapsto> oldCell\<lparr>tiles := withoutId (heap s) i (tiles oldCell), isDirty := True\<rparr>)"
      obtain dcell where dcell: "cells s (nx, ny) = Some dcell" using wf_cell[OF wf True] by blast
      then obtain destCell where dc: "?C (nx, ny) = Some destCell" by (cases "(nx, ny) = ?p") auto
      obtain s1 where e1: "moveTile s i nx ny = Inr s1"
        and f: "heap s1 = (heap s)[r := (heap s ! r)\<lparr>tx := nx, ty := ny\<rparr>]"
          "cells s1 = ?C((nx, ny) \<mapsto> destCell\<lparr>tiles := insertTile (heap s1) r (tiles destCell), isDirty := True\<rparr>)"
          "tileMap s1 = tileMap s"
          "dirtyRects s1 = (if autoRender s then {}
                      else insert (nx, ny) (insert ?p (dirtyRects s)))"
          "warnings s1 = warnings s"
          "sameConfig s s1"
        by (rule moveTile_known[OF \<open>tileMap s i = Some r\<close> alloc True Some dc wf_dirty_all[OF wf]])
      have s': "s' = s1" using e e1 by simp
      show ?thesis
        by (rule moved[OF \<open>tileMap s i = Some r\<close> alloc True ib Some dc]) (simp_all add: s' f)
    qed
  qed
qed

lemma moveTile_wellFormed:
  assumes wf: "wellFormed s" and e: "moveTile s i nx ny = Inr s'"
  shows "wellFormed s'"
  using wf e
proof (cases rule: moveTile_cases)
  case (rejected m)
  then show ?thesis using wf by simp
next
  case (moved r oldCell destCell)
  let ?p = "(tx (heap s ! r), ty (heap s ! r))"
  let ?C = "(cells s)(?p \<mapsto> oldCell\<lparr>tiles := withoutId (heap s) i (tiles oldCell), isDirty := True\<rparr>)"
  have newcell: "cells s (nx, ny) \<noteq> None" using wf_grid[OF wf] moved(3) by simp
  have len: "length (heap s') = length (heap s)" by (simp add: moved(7))
  have dt: "set (tiles destCell) \<subseteq> {q. q < length (heap s)}"
  proof (cases "(nx, ny) = ?p")
    case True
    with moved(6) have "tiles destCell = withoutId (heap s) i (tiles oldCell)" by auto
    then show ?thesis using wf_cell_refs[OF wf moved(5)] by (auto simp: set_withoutId)
  next
    case False
    with moved(6) have "cells s (nx, ny) = Some destCell" by (auto split: if_splits)
    then show ?thesis using wf_cell_refs[OF wf] by blast
  qed
  show ?thesis
  proof (rule wellFormedI[OF wf])
    show "inBounds s' = inBounds s" by (rule sameConfig_inBounds[OF moved(12)])
    show "(cells s' p \<noteq> None) = (cells s p \<noteq> None)" for p
      using moved(5) newcell by (simp add: moved(8))
    show "dirtyRects s' \<subseteq> {p. cells s p \<noteq> None}"
      using wf_dirty_all[OF wf] moved(5) newcell by (auto simp: moved(10))
    show "q < length (heap s')" if "tileMap s' j = Some q" for j q
      using that wf_index[OF wf, of j q] by (simp add: moved(9) len)
    show "q < length (heap s')" if c: "cells s' p = Some c" and q: "q \<in> set (tiles c)" for p c q
    proof (cases "p = (nx, ny)")
      case True
      with c have "tiles c = insertTile (heap s') r (tiles destCell)" by (auto simp: moved(8))
      with q have "q = r \<or> q \<in> set (tiles destCell)" by simp
      then show ?thesis using dt moved(2) by (auto simp: len)
    next
      case False
      show ?thesis
      proof (cases "p = ?p")
        case True
        with False c have "tiles c = withoutId (heap s) i (tiles oldCell)" by (auto simp: moved(8))
        with q have "q \<in> set (tiles oldCell)" by (simp add: set_withoutId)
        from wf_cell_refs[OF wf moved(5) this] show ?thesis by (simp add: len)
      next
        case np: False
        with False c have "cells s p = Some c" by (simp add: moved(8))
        from wf_cell_refs[OF wf this q] show ?thesis by (simp add: len)
      qed
    qed
  qed
qed

lemma removeTile_unknown:
  "tileMap s i = None \<Longrightarrow> removeTile s i = Inr (logMsg WARN (RemoveNonExistent i) s)"
  by (simp add: removeTile_def)

lemma removeTile_stored_outside:
  "tileMap s i = Some r \<Longrightarrow> cells s (tx (heap s ! r), ty (heap s ! r)) = None
     \<Longrightarrow> removeTile s i = Inl TypeError"
  by (simp add: removeTile_def Let_def)

lemma removeTile_cases:
  assumes wf: "wellFormed s" and e: "removeTile s i = Inr s'"
  obtains (rejected) "s' = logMsg WARN (RemoveNonExistent i) s" "tileMap s i = None"
  | (removed) r cell where
      "tileMap s i = Some r" "r < length (heap s)"
      "cells s (tx (heap s ! r), ty (heap s ! r)) = Some cell"
      "heap s' = heap s"
      "cells s' = (cells s)((tx (heap s ! r), ty (heap s ! r)) \<mapsto>
          cell\<lparr>tiles := withoutId (heap s) i (tiles cell), isDirty := True\<rparr>)"
      "tileMap s' = (tileMap s)(i := None)"
      "dirtyRects s' = (if autoRender s then {}
                      else insert (tx (heap s ! r), ty (heap s ! r)) (dirtyRects s))"
      "warnings s' = warnings s"
      "sameConfig s s'"
proof (cases "tileMap s i")
  case None
  from removeTile_unknown[OF None] e have "s' = logMsg WARN (RemoveNonExistent i) s" by simp
  then show ?thesis using None by (rule rejected)
next
  case (Some r)
  let ?p = "(tx (heap s ! r), ty (heap s ! r))"
  have alloc: "r < length (heap s)" using wf Some by (rule wf_index)
  show ?thesis
  proof (cases "cells s ?p")
    case None
    from removeTile_stored_outside[OF Some None] e show ?thesis by simp
  next
    case (Some cell)
    obtain s1 where e1: "removeTile s i = Inr s1"
      and f: "heap s1 = heap s"
        "cells s1 = (cells s)(?p \<mapsto> cell\<lparr>tiles := withoutId (heap s) i (tiles cell), isDirty := True\<rparr>)"
        "tileMap s1 = (tileMap s)(i := None)"
        "dirtyRects s1 = (if autoRender s then {} else insert ?p (dirtyRects s))"
        "warnings s1 = warnings s"
        "sameConfig s s1"
      by (rule removeTile_known[OF \<open>tileMap s i = Some r\<close> Some wf_dirty_all[OF wf]])
    have s': "s' = s1" using e e1 by simp
    show ?thesis
      by (rule removed[OF \<open>tileMap s i = Some r\<close> alloc Some]) (simp_all add: s' f)
  qed
qed

lemma removeTile_wellFormed:
  assumes wf: "wellFormed s" and e: "removeTile s i = Inr s'"
  shows "wellFormed s'"
  using wf e
proof (cases rule: removeTile_cases)
  case rejected
  then show ?thesis using wf by simp
next
  case (removed r cell)
  let ?p = "(tx (heap s ! r), ty (heap s ! r))"
  show ?thesis
  proof (rule wellFormedI[OF wf])
    show "inBounds s' = inBounds s" by (rule sameConfig_inBounds[OF removed(9)])
    show "(cells s' p \<noteq> None) = (cells s p \<noteq> None)" for p
      using removed(3) by (simp add: removed(5))
    show "dirtyRects s' \<subseteq> {p. cells s p \<noteq> None}"
      using wf_dirty_all[OF wf] removed(3) by (auto simp: removed(7))
    show "q < length (heap s')" if "tileMap s' j = Some q" for j q
      using that wf_index[OF wf, of j q] by (simp add: removed(6) removed(4) split: if_splits)
    show "q < length (heap s')" if c: "cells s' p = Some c" and q: "q \<in> set (tiles c)" for p c q
    proof (cases "p = ?p")
      case True
      with c have "tiles c = withoutId (heap s) i (tiles cell)" by (auto simp: removed(5))
      with q have "q \<in> set (tiles cell)" by (simp add: set_withoutId)
      from wf_cell_refs[OF wf removed(3) this] show ?thesis by (simp add: removed(4))
    next
      case False
      with c have "cells s p = Some c" by (simp add: removed(5))
      from wf_cell_refs[OF wf this q] show ?thesis by (simp add: removed(4))
    qed
  qed
qed

lemma tilesAt_Some: "cells s p = Some c \<Longrightarrow> tilesAt s p = tiles c"
  by (simp add: tilesAt_def)

lemma tilesAt_None: "cells s p = None \<Longrightarrow> tilesAt s p = []"
  by (simp add: tilesAt_def)

lemma tilesAt_logMsg [simp]: "tilesAt (logMsg l m s) = tilesAt s"
  by (simp add: tilesAt_def fun_eq_iff)

lemma wf_tilesAt: "wellFormed s \<Longrightarrow> r \<in> set (tilesAt s p) \<Longrightarrow> r < length (heap s)"
  by (cases "cells s p") (auto simp: tilesAt_def dest: wf_cell_refs)


lemma tilesPlaced_iff:
  "tilesPlaced s =
     (\<forall>i r. tileMap s i = Some r \<longrightarrow>
        tid (heap s ! r) = i
        \<and> (\<forall>p. count_list (tilesAt s p) r =
                 (if p = (tx (heap s ! r), ty (heap s ! r)) \<and> cells s p \<noteq> None then 1 else 0)))"
proof -
  have k: "(\<forall>p c. cells s p = Some c \<longrightarrow> count_list (tiles c) r = (if p = q then 1 else 0))
         = (\<forall>p. count_list (tilesAt s p) r = (if p = q \<and> cells s p \<noteq> None then 1 else 0))"
    for r q
  proof
    assume a: "\<forall>p c. cells s p = Some c \<longrightarrow> count_list (tiles c) r = (if p = q then 1 else 0)"
    show "\<forall>p. count_list (tilesAt s p) r = (if p = q \<and> cells s p \<noteq> None then 1 else 0)"
    proof
      fix p show "count_list (tilesAt s p) r = (if p = q \<and> cells s p \<noteq> None then 1 else 0)"
      proof (cases "cells s p")
        case None
        then show ?thesis by (simp add: tilesAt_def)
      next
        case (Some c)
        from a[rule_format, OF Some] show ?thesis by (simp add: tilesAt_Some[OF Some] Some)
      qed
    qed
  next
    assume a: "\<forall>p. count_list (tilesAt s p) r = (if p = q \<and> cells s p \<noteq> None then 1 else 0)"
    show "\<forall>p c. cells s p = Some c \<longrightarrow> count_list (tiles c) r = (if p = q then 1 else 0)"
    proof (intro allI impI)
      fix p c assume c: "cells s p = Some c"
      from a have "count_list (tilesAt s p) r = (if p = q \<and> cells s p \<noteq> None then 1 else 0)" ..
      then show "count_list (tiles c) r = (if p = q then 1 else 0)"
        by (simp add: tilesAt_Some[OF c] c)
    qed
  qed
  show ?thesis unfolding tilesPlaced_def k ..
qed

text \<open>What the calls that return have done to the index, the store and the lists of the
  cells.\<close>

lemma createTile_effect:
  assumes wf: "wellFormed s" and e: "createTile s x y ch col bg z bgp fd = Inr (i, s')"
  shows "i = newTileId s"
    "heap s' = heap s @ [\<lparr>tid = i, tx = x, ty = y, tchar = ch, color = col,
                 backgroundColor = bg, zIndex = z, bgPercent = bgp, fillDirection = fd\<rparr>]"
    "tileMap s' = (tileMap s)(i \<mapsto> length (heap s))"
    "tilesAt s' = (\<lambda>p. if p = (x, y) \<and> inBounds s x y
                       then insertTile (heap s') (length (heap s)) (tilesAt s p) else tilesAt s p)"
    "(cells s' p \<noteq> None) = (cells s p \<noteq> None)"
    "sameConfig s s'"
proof -
  let ?t = "\<lparr>tid = newTileId s, tx = x, ty = y, tchar = ch, color = col,
                 backgroundColor = bg, zIndex = z, bgPercent = bgp, fillDirection = fd\<rparr>"
  have "i = newTileId s \<and> heap s' = heap s @ [?t]
    \<and> tileMap s' = (tileMap s)(newTileId s \<mapsto> length (heap s))
    \<and> tilesAt s' = (\<lambda>p. if p = (x, y) \<and> inBounds s x y
                       then insertTile (heap s') (length (heap s)) (tilesAt s p) else tilesAt s p)
    \<and> (cells s' p \<noteq> None) = (cells s p \<noteq> None) \<and> sameConfig s s'"
  proof (cases "inBounds s x y")
    case True
    obtain cell where cell: "cells s (x, y) = Some cell" using wf_cell[OF wf True] by blast
    obtain s1 where e1: "createTile s x y ch col bg z bgp fd = Inr (newTileId s, s1)"
      and h: "heap s1 = heap s @ [?t]"
      and cs: "cells s1 = (cells s)((x, y) \<mapsto>
          cell\<lparr>tiles := insertTile (heap s1) (length (heap s)) (tiles cell), isDirty := True\<rparr>)"
      and tm: "tileMap s1 = (tileMap s)(newTileId s \<mapsto> length (heap s))"
      and sc: "sameConfig s s1"
      by (rule createTile_inside[OF True cell wf_dirty_all[OF wf], of ch col bg z bgp fd])
    have s': "s' = s1" and i: "i = newTileId s" using e e1 by simp_all
    have t: "tilesAt s1 = (\<lambda>p. if p = (x, y) \<and> inBounds s x y
                       then insertTile (heap s1) (length (heap s)) (tilesAt s p) else tilesAt s p)"
      using True cell by (auto simp: fun_eq_iff tilesAt_def cs)
    have d: "(cells s1 p \<noteq> None) = (cells s p \<noteq> None)" using cell by (simp add: cs)
    show ?thesis unfolding s' using i h tm t d sc by blast
  next
    case False
    obtain s1 where e1: "createTile s x y ch col bg z bgp fd = Inr (newTileId s, s1)"
      and cs: "cells s1 = cells s"
      and h: "heap s1 = heap s @ [?t]"
      and tm: "tileMap s1 = (tileMap s)(newTileId s \<mapsto> length (heap s))"
      and sc: "sameConfig s s1"
      by (rule createTile_outside[OF False wf_dirty_all[OF wf], of ch col bg z bgp fd])
    have s': "s' = s1" and i: "i = newTileId s" using e e1 by simp_all
    have t: "tilesAt s1 = (\<lambda>p. if p = (x, y) \<and> inBounds s x y
                       then insertTile (heap s1) (length (heap s)) (tilesAt s p) else tilesAt s p)"
      using False by (auto simp: fun_eq_iff tilesAt_def cs)
    have d: "(cells s1 p \<noteq> None) = (cells s p \<noteq> None)" by (simp add: cs)
    show ?thesis unfolding s' using i h tm t d sc by blast
  qed
  then show "i = newTileId s"
    "heap s' = heap s @ [\<lparr>tid = i, tx = x, ty = y, tchar = ch, color = col,
                 backgroundColor = bg, zIndex = z, bgPercent = bgp, fillDirection = fd\<rparr>]"
    "tileMap s' = (tileMap s)(i \<mapsto> length (heap s))"
    "tilesAt s' = (\<lambda>p. if p = (x, y) \<and> inBounds s x y
                       then insertTile (heap s') (length (heap s)) (tilesAt s p) else tilesAt s p)"
    "(cells s' p \<noteq> None) = (cells s p \<noteq> None)"
    "sameConfig s s'"
    by simp_all
qed

lemma moveTile_effect:
  assumes wf: "wellFormed s" and e: "moveTile s i nx ny = Inr s'"
  obtains (rejected) m where "s' = logMsg WARN m s"
  | (moved) r where
      "tileMap s i = Some r" "r < length (heap s)" "inBounds s nx ny"
      "cells s (tx (heap s ! r), ty (heap s ! r)) \<noteq> None"
      "cells s (nx, ny) \<noteq> None"
      "heap s' = (heap s)[r := (heap s ! r)\<lparr>tx := nx, ty := ny\<rparr>]"
      "tileMap s' = tileMap s"
      "tilesAt s' = (\<lambda>p. if p = (nx, ny)
          then insertTile (heap s') r
                 (if p = (tx (heap s ! r), ty (heap s ! r))
                  then withoutId (heap s) i (tilesAt s p) else tilesAt s p)
          else if p = (tx (heap s ! r), ty (heap s ! r))
               then withoutId (heap s) i (tilesAt s p) else tilesAt s p)"
      "\<And>p. (cells s' p \<noteq> None) = (cells s p \<noteq> None)"
  using wf e
proof (cases rule: moveTile_cases)
  case (rejected m)
  then show ?thesis using that(1) by blast
next
  case (moved r oldCell destCell)
  let ?p = "(tx (heap s ! r), ty (heap s ! r))"
  have newcell: "cells s (nx, ny) \<noteq> None" using wf_grid[OF wf] moved(3) by simp
  have dt: "tiles destCell = (if (nx, ny) = ?p then withoutId (heap s) i (tilesAt s (nx, ny))
                              else tilesAt s (nx, ny))"
    using moved(5,6) by (auto simp: tilesAt_def split: if_splits)
  have t: "tilesAt s' = (\<lambda>p. if p = (nx, ny)
          then insertTile (heap s') r
                 (if p = ?p then withoutId (heap s) i (tilesAt s p) else tilesAt s p)
          else if p = ?p then withoutId (heap s) i (tilesAt s p) else tilesAt s p)"
  proof
    fix p
    show "tilesAt s' p = (if p = (nx, ny)
          then insertTile (heap s') r
                 (if p = ?p then withoutId (heap s) i (tilesAt s p) else tilesAt s p)
          else if p = ?p then withoutId (heap s) i (tilesAt s p) else tilesAt s p)"
    proof (cases "p = (nx, ny)")
      case True
      have "tilesAt s' p = insertTile (heap s') r (tiles destCell)"
        by (simp add: tilesAt_def moved(8) True)
      then show ?thesis unfolding dt using True by simp
    next
      case False
      then show ?thesis using moved(5) by (simp add: tilesAt_def moved(8))
    qed
  qed
  have d: "(cells s' p \<noteq> None) = (cells s p \<noteq> None)" for p
    using moved(5) newcell by (simp add: moved(8))
  have old: "cells s ?p \<noteq> None" using moved(5) by simp
  show ?thesis
    by (rule that(2)[OF moved(1) moved(2) moved(3) old newcell moved(7) moved(9) t d])
qed

lemma removeTile_effect:
  assumes wf: "wellFormed s" and e: "removeTile s i = Inr s'"
  obtains (rejected) m where "s' = logMsg WARN m s"
  | (removed) r where
      "tileMap s i = Some r" "r < length (heap s)"
      "heap s' = heap s"
      "tileMap s' = (tileMap s)(i := None)"
      "tilesAt s' = (\<lambda>p. if p = (tx (heap s ! r), ty (heap s ! r))
                          then withoutId (heap s) i (tilesAt s p) else tilesAt s p)"
      "\<And>p. (cells s' p \<noteq> None) = (cells s p \<noteq> None)"
  using wf e
proof (cases rule: removeTile_cases)
  case rejected
  then show ?thesis using that(1) by blast
next
  case (removed r cell)
  have t: "tilesAt s' = (\<lambda>p. if p = (tx (heap s ! r), ty (heap s ! r))
                          then withoutId (heap s) i (tilesAt s p) else tilesAt s p)"
    using removed(3) by (auto simp: fun_eq_iff tilesAt_def removed(5))
  have d: "(cells s' p \<noteq> None) = (cells s p \<noteq> None)" for p
    using removed(3) by (simp add: removed(5))
  show ?thesis by (rule that(2)[OF removed(1) removed(2) removed(4) removed(6) t d])
qed

lemma updateTile_unknown:
  "tileMap s i = None \<Longrightarrow> updateTile s i u = Inr (logMsg WARN (UpdateNonExistent i) s)"
  by (simp add: updateTile_def)

lemma wellFormed_heap_update:
  assumes "wellFormed s"
  shows "wellFormed (s\<lparr>heap := (heap s)[r := t]\<rparr>)"
  by (rule wellFormedI[OF assms]) (use assms in \<open>auto simp: wellFormed_def\<close>)

lemma tilesAt_heap_update [simp]: "tilesAt (s\<lparr>heap := h\<rparr>) = tilesAt s"
  by (simp add: tilesAt_def fun_eq_iff)

lemma updateTile_effect:
  assumes wf: "wellFormed s" and e: "updateTile s i u = Inr s'"
  obtains (rejected) m where "s' = logMsg WARN m s"
  | (updated) r where
      "tileMap s i = Some r" "r < length (heap s)" "uX u = None" "uY u = None"
      "heap s' = (heap s)[r := assign (heap s ! r) u]"
      "tileMap s' = tileMap s"
      "tilesAt s' = tilesAt s"
      "\<And>p. (cells s' p \<noteq> None) = (cells s p \<noteq> None)"
      "inBounds s' = inBounds s"
      "dirtyRects s' \<subseteq> {p. cells s p \<noteq> None}"
  | (repositioned) r s2 where
      "tileMap s i = Some r" "r < length (heap s)"
      "s2 = (logMsg VERBOSE (UpdatingTile i) s)\<lparr>heap := (heap s)[r := assign (heap s ! r) u]\<rparr>"
      "moveTile s2 i (tx (heap s2 ! r)) (ty (heap s2 ! r)) = Inr s'"
      "uX u \<noteq> None \<or> uY u \<noteq> None"
proof (cases "tileMap s i")
  case None
  from updateTile_unknown[OF None, of u] e show ?thesis using rejected by simp
next
  case (Some r)
  have alloc: "r < length (heap s)" using wf Some by (rule wf_index)
  let ?s1 = "logMsg VERBOSE (UpdatingTile i) s"
  let ?s2 = "?s1\<lparr>heap := (heap ?s1)[r := assign (heap ?s1 ! r) u]\<rparr>"
  have s2: "?s2 = (logMsg VERBOSE (UpdatingTile i) s)\<lparr>heap := (heap s)[r := assign (heap s ! r) u]\<rparr>"
    by simp
  let ?p = "(tx (heap ?s2 ! r), ty (heap ?s2 ! r))"
  show ?thesis
  proof (cases "uX u \<noteq> None \<or> uY u \<noteq> None")
    case True
    have "updateTile s i u = moveTile ?s2 i (tx (heap ?s2 ! r)) (ty (heap ?s2 ! r))"
      using Some True unfolding updateTile_def Let_def by simp
    with e have "moveTile ?s2 i (tx (heap ?s2 ! r)) (ty (heap ?s2 ! r)) = Inr s'" by simp
    then show ?thesis using True by (rule repositioned[OF Some alloc s2])
  next
    case False
    then have ux: "uX u = None" and uy: "uY u = None" by simp_all
    have u: "updateTile s i u =
        (case cells ?s2 ?p of None \<Rightarrow> Inl TypeError
         | Some cell \<Rightarrow> renderIfAuto (?s2\<lparr>cells := (cells ?s2)(?p \<mapsto> cell\<lparr>isDirty := True\<rparr>),
                             dirtyRects := insert ?p (dirtyRects ?s2)\<rparr>))"
      using Some False unfolding updateTile_def Let_def by simp
    show ?thesis
    proof (cases "cells ?s2 ?p")
      case None
      with u e show ?thesis by simp
    next
      case (Some cell)
      let ?s3 = "?s2\<lparr>cells := (cells ?s2)(?p \<mapsto> cell\<lparr>isDirty := True\<rparr>),
                             dirtyRects := insert ?p (dirtyRects ?s2)\<rparr>"
      from u e Some have r: "renderIfAuto ?s3 = Inr s'" by simp
      have c: "cells s ?p = Some cell" using Some by simp
      have f: "heap s' = heap ?s3" "tileMap s' = tileMap ?s3" "cells s' = cells ?s3"
        "inBounds s' = inBounds ?s3"
        "dirtyRects s' = (if autoRender ?s3 then {} else dirtyRects ?s3)"
        using renderIfAuto_fields[OF r] by simp_all
      have t: "tilesAt s' = tilesAt s" using c by (auto simp: tilesAt_def fun_eq_iff f(3))
      have d: "(cells s' p \<noteq> None) = (cells s p \<noteq> None)" for p using c by (simp add: f(3))
      have dr: "dirtyRects s' \<subseteq> {p. cells s p \<noteq> None}"
        using wf_dirty_all[OF wf] c by (auto simp: f(5))
      show ?thesis
        by (rule updated[OF \<open>tileMap s i = Some r\<close> alloc ux uy _ _ t d _ dr]) (simp_all add: f)
    qed
  qed
qed

lemma updateTile_wellFormed:
  assumes wf: "wellFormed s" and e: "updateTile s i u = Inr s'"
  shows "wellFormed s'"
  using wf e
proof (cases rule: updateTile_effect)
  case (rejected m)
  then show ?thesis using wf by simp
next
  case (updated r)
  show ?thesis
  proof (rule wellFormedI[OF wf updated(9) updated(8) updated(10)])
    show "q < length (heap s')" if "tileMap s' j = Some q" for j q
      using that wf_index[OF wf, of j q] by (simp add: updated(5,6))
    show "q < length (heap s')" if c: "cells s' p = Some c" and q: "q \<in> set (tiles c)" for p c q
    proof -
      from q have "q \<in> set (tilesAt s' p)" by (simp add: tilesAt_Some[OF c])
      then have "q \<in> set (tilesAt s p)" by (simp add: updated(7))
      from wf_tilesAt[OF wf this] show ?thesis by (simp add: updated(5))
    qed
  qed
next
  case (repositioned r s2)
  have "wellFormed s2" unfolding repositioned(3)
    using wellFormed_heap_update[of "logMsg VERBOSE (UpdatingTile i) s" r "assign (heap s ! r) u"] wf
    by simp
  then show ?thesis using repositioned(4) by (rule moveTile_wellFormed)
qed

section \<open>The lists stay ascending\<close>




lemma cellsSorted_logMsg [simp]: "cellsSorted (logMsg l m s) = cellsSorted s"
  by (simp add: cellsSorted_def)






section \<open>Every indexed tile stays in the cell of its coordinates\<close>

lemma tilesPlaced_tid: "tilesPlaced s \<Longrightarrow> tileMap s i = Some r \<Longrightarrow> tid (heap s ! r) = i"
  unfolding tilesPlaced_iff by blast

lemma tilesPlaced_count:
  "tilesPlaced s \<Longrightarrow> tileMap s i = Some r \<Longrightarrow>
     count_list (tilesAt s p) r =
       (if p = (tx (heap s ! r), ty (heap s ! r)) \<and> cells s p \<noteq> None then 1 else 0)"
  unfolding tilesPlaced_iff by blast

lemma tilesPlacedI:
  assumes "\<And>i r. tileMap s i = Some r \<Longrightarrow> tid (heap s ! r) = i"
    and "\<And>i r p. tileMap s i = Some r \<Longrightarrow>
     count_list (tilesAt s p) r =
       (if p = (tx (heap s ! r), ty (heap s ! r)) \<and> cells s p \<noteq> None then 1 else 0)"
  shows "tilesPlaced s"
  unfolding tilesPlaced_iff using assms by blast

lemma tilesPlaced_logMsg [simp]: "tilesPlaced (logMsg l m s) = tilesPlaced s"
  by (simp add: tilesPlaced_def)

lemma count_list_absent: "r \<notin> set ts \<Longrightarrow> count_list ts r = 0"
  by (simp add: count_list_0_iff)

lemma createTile_tilesPlaced:
  assumes wf: "wellFormed s" and pl: "tilesPlaced s"
    and e: "createTile s x y ch col bg z bgp fd = Inr (i, s')"
  shows "tilesPlaced s'"
proof -
  note f = createTile_effect[OF wf e]
  let ?n = "length (heap s)"
  have new: "heap s' ! ?n = \<lparr>tid = i, tx = x, ty = y, tchar = ch, color = col,
                 backgroundColor = bg, zIndex = z, bgPercent = bgp, fillDirection = fd\<rparr>"
    by (simp add: f(2))
  have old: "heap s' ! q = heap s ! q" if "q < ?n" for q using that by (simp add: f(2) nth_append)
  have fresh: "count_list (tilesAt s p) ?n = 0" for p
    using wf_tilesAt[OF wf, of ?n p] by (auto intro: count_list_absent)
  have grid: "(cells s (x, y) \<noteq> None) = inBounds s x y" using wf_grid[OF wf] by simp
  show ?thesis
  proof (rule tilesPlacedI)
    fix j q assume m: "tileMap s' j = Some q"
    show "tid (heap s' ! q) = j"
    proof (cases "j = i")
      case True
      with m have "q = ?n" by (simp add: f(3))
      then show ?thesis using True new by simp
    next
      case False
      with m have k: "tileMap s j = Some q" by (simp add: f(3))
      from wf_index[OF wf k] tilesPlaced_tid[OF pl k] show ?thesis by (simp add: old)
    qed
  next
    fix j q p assume m: "tileMap s' j = Some q"
    show "count_list (tilesAt s' p) q =
       (if p = (tx (heap s' ! q), ty (heap s' ! q)) \<and> cells s' p \<noteq> None then 1 else 0)"
    proof (cases "j = i")
      case True
      with m have q: "q = ?n" by (simp add: f(3))
      show ?thesis unfolding q f(4) f(5) new
        using fresh[of p] grid by (auto simp: count_list_insertTile)
    next
      case False
      with m have k: "tileMap s j = Some q" by (simp add: f(3))
      have lt: "q < ?n" by (rule wf_index[OF wf k])
      then have ne: "q \<noteq> ?n" by simp
      show ?thesis unfolding f(4) f(5) old[OF lt]
        using tilesPlaced_count[OF pl k, of p] ne by (auto simp: count_list_insertTile)
    qed
  qed
qed

lemma moveTile_tilesPlaced:
  assumes wf: "wellFormed s" and pl: "tilesPlaced s" and e: "moveTile s i nx ny = Inr s'"
  shows "tilesPlaced s'"
  using wf e
proof (cases rule: moveTile_effect)
  case (rejected m)
  then show ?thesis using pl by simp
next
  case (moved r)
  let ?old = "(tx (heap s ! r), ty (heap s ! r))"
  have ir: "tid (heap s ! r) = i" by (rule tilesPlaced_tid[OF pl moved(1)])
  have hr: "heap s' ! r = (heap s ! r)\<lparr>tx := nx, ty := ny\<rparr>" using moved(2) by (simp add: moved(6))
  have ho: "heap s' ! q = heap s ! q" if "q \<noteq> r" for q using that by (simp add: moved(6))
  show ?thesis
  proof (rule tilesPlacedI)
    fix j q assume m: "tileMap s' j = Some q"
    then have k: "tileMap s j = Some q" by (simp add: moved(7))
    show "tid (heap s' ! q) = j"
      using tilesPlaced_tid[OF pl k] by (cases "q = r") (simp_all add: hr ho)
  next
    fix j q p assume m: "tileMap s' j = Some q"
    then have k: "tileMap s j = Some q" by (simp add: moved(7))
    have c: "count_list (tilesAt s p) q = (if p = (tx (heap s ! q), ty (heap s ! q)) \<and> cells s p \<noteq> None then 1 else 0)"
      by (rule tilesPlaced_count[OF pl k])
    show "count_list (tilesAt s' p) q =
       (if p = (tx (heap s' ! q), ty (heap s' ! q)) \<and> cells s' p \<noteq> None then 1 else 0)"
    proof (cases "q = r")
      case True
      show ?thesis unfolding True moved(8) moved(9) hr
        using c[unfolded True] ir moved(5)
        by (auto simp: count_list_insertTile count_list_withoutId)
    next
      case False
      have "j \<noteq> i" using k moved(1) False by auto
      then have ji: "tid (heap s ! q) \<noteq> i" using tilesPlaced_tid[OF pl k] by simp
      show ?thesis unfolding moved(8) moved(9) ho[OF False]
        using c ji False by (auto simp: count_list_insertTile count_list_withoutId)
    qed
  qed
qed

lemma removeTile_tilesPlaced:
  assumes wf: "wellFormed s" and pl: "tilesPlaced s" and e: "removeTile s i = Inr s'"
  shows "tilesPlaced s'"
  using wf e
proof (cases rule: removeTile_effect)
  case (rejected m)
  then show ?thesis using pl by simp
next
  case (removed r)
  show ?thesis
  proof (rule tilesPlacedI)
    fix j q assume m: "tileMap s' j = Some q"
    then have k: "tileMap s j = Some q" by (simp add: removed(4) split: if_splits)
    show "tid (heap s' ! q) = j" using tilesPlaced_tid[OF pl k] by (simp add: removed(3))
  next
    fix j q p assume m: "tileMap s' j = Some q"
    then have k: "tileMap s j = Some q" and ji: "j \<noteq> i" by (simp_all add: removed(4) split: if_splits)
    have t: "tid (heap s ! q) \<noteq> i" using tilesPlaced_tid[OF pl k] ji by simp
    show "count_list (tilesAt s' p) q =
       (if p = (tx (heap s' ! q), ty (heap s' ! q)) \<and> cells s' p \<noteq> None then 1 else 0)"
      unfolding removed(3) removed(5) removed(6)
      using tilesPlaced_count[OF pl k, of p] t by (auto simp: count_list_withoutId)
  qed
qed

lemma assign_same_place:
  "uX u = None \<Longrightarrow> uY u = None \<Longrightarrow>
     tx (assign t u) = tx t \<and> ty (assign t u) = ty t \<and> tid (assign t u) = tid t"
  by (simp add: assign_def)

lemma updateTile_tilesPlaced:
  assumes wf: "wellFormed s" and pl: "tilesPlaced s" and e: "updateTile s i u = Inr s'"
    and u: "uX u = None" "uY u = None"
  shows "tilesPlaced s'"
  using wf e
proof (cases rule: updateTile_effect)
  case (rejected m)
  then show ?thesis using pl by simp
next
  case (updated r)
  have h: "tx (heap s' ! q) = tx (heap s ! q) \<and> ty (heap s' ! q) = ty (heap s ! q)
           \<and> tid (heap s' ! q) = tid (heap s ! q)" for q
    using updated(2) assign_same_place[OF u] by (cases "q = r") (simp_all add: updated(5))
  show ?thesis
  proof (rule tilesPlacedI)
    fix j q assume m: "tileMap s' j = Some q"
    then have k: "tileMap s j = Some q" by (simp add: updated(6))
    show "tid (heap s' ! q) = j" using tilesPlaced_tid[OF pl k] by (simp add: h)
  next
    fix j q p assume m: "tileMap s' j = Some q"
    then have k: "tileMap s j = Some q" by (simp add: updated(6))
    show "count_list (tilesAt s' p) q =
       (if p = (tx (heap s' ! q), ty (heap s' ! q)) \<and> cells s' p \<noteq> None then 1 else 0)"
      unfolding updated(7) updated(8) using tilesPlaced_count[OF pl k, of p] by (simp add: h)
  qed
next
  case (repositioned r s2)
  then show ?thesis using u by simp
qed

lemma bindE_Inr_iff: "(bindE m f = Inr b) = (\<exists>a. m = Inr a \<and> f a = Inr b)"
  by (cases m) (simp_all add: bindE_def)

lemma forEachE_invariant:
  assumes "\<And>a s s'. I s \<Longrightarrow> f a s = Inr s' \<Longrightarrow> I s'"
    and "I s" and "forEachE f as s = Inr s'"
  shows "I s'"
  using assms(2,3)
proof (induction as arbitrary: s)
  case Nil
  then show ?case by simp
next
  case (Cons a as)
  show ?case
  proof (cases "f a s")
    case (Inl e)
    with Cons.prems(2) show ?thesis by simp
  next
    case (Inr s1)
    have "I s1" by (rule assms(1)[OF Cons.prems(1) Inr])
    moreover have "forEachE f as s1 = Inr s'" using Cons.prems(2) Inr by simp
    ultimately show ?thesis by (rule Cons.IH)
  qed
qed

text \<open>The operations made of \<open>createTile\<close>, \<open>moveTile\<close> and \<open>removeTile\<close> keep what these
  three keep.\<close>

lemma emptyCell_keeps:
  assumes lg: "\<And>l m s. I s \<Longrightarrow> I (logMsg l m s)"
    and rm: "\<And>s i s'. I s \<Longrightarrow> removeTile s i = Inr s' \<Longrightarrow> I s'"
    and i: "I s" and e: "emptyCell s x y = Inr s'"
  shows "I s'"
proof (cases "x < 0 \<or> x \<ge> worldWidth s \<or> y < 0 \<or> y \<ge> worldHeight s")
  case True
  with e have "s' = logMsg WARN (EmptyOutsideBounds x y) s" by (simp add: emptyCell_def)
  then show ?thesis using lg[OF i] by simp
next
  case False
  show ?thesis
  proof (cases "cells s (x, y)")
    case None
    with e False show ?thesis by (simp add: emptyCell_def)
  next
    case (Some cell)
    with e False have
      "forEachE (\<lambda>i d. removeTile d i) (map (\<lambda>t. tid (heap s ! t)) (tiles cell)) s = Inr s'"
      by (simp add: emptyCell_def)
    with _ i show ?thesis by (rule forEachE_invariant) (rule rm)
  qed
qed

lemma createString_keeps:
  assumes cr: "\<And>s x y ch col bg z bgp fd i s'.
      I s \<Longrightarrow> createTile s x y ch col bg z bgp fd = Inr (i, s') \<Longrightarrow> I s'"
    and i: "I s" and e: "createString s x y text z = Inr (ids, s')"
  shows "I s'"
proof -
  let ?J = "\<lambda>(cx :: int, ids :: TileId list, d). I d"
  let ?g = "\<lambda>(segText, segColor).
                  forEachE (\<lambda>ch (currentX, tileIds, d).
                     bindE (createTile d currentX y [ch] segColor ''#000000FF'' z 1 BOTTOM)
                       (\<lambda>(tileId, d'). Inr (currentX + 1, tileIds @ [tileId], d')))
                   segText"
  from e obtain a where a: "forEachE ?g (textParser s text) (x, [], s) = Inr a"
    and b: "(case a of (cx, ts, d) \<Rightarrow> Inr (ts, d)) = (Inr (ids, s') :: error + _)"
    unfolding createString_def Let_def bindE_Inr_iff by blast
  have step: "?J t'" if j: "?J t" and st: "?g seg t = Inr t'" for seg t t'
  proof -
    obtain segText segColor where seg: "seg = (segText, segColor)" by (cases seg)
    from st have st': "forEachE (\<lambda>ch (currentX, tileIds, d).
                     bindE (createTile d currentX y [ch] segColor ''#000000FF'' z 1 BOTTOM)
                       (\<lambda>(tileId, d'). Inr (currentX + 1, tileIds @ [tileId], d')))
                   segText t = Inr t'" by (simp add: seg)
    show ?thesis
    proof (rule forEachE_invariant[where I = ?J, OF _ j st'])
      fix ch :: char and u u' :: "int \<times> TileId list \<times> MatrixDisplay"
      assume ju: "?J u"
        and c: "(case u of (cx, ts, d) \<Rightarrow>
                     bindE (createTile d cx y [ch] segColor ''#000000FF'' z 1 BOTTOM)
                       (\<lambda>(tileId, d'). Inr (cx + 1, ts @ [tileId], d'))) = Inr u'"
      obtain cx ts d where u: "u = (cx, ts, d)" by (cases u)
      from c obtain k d' where "createTile d cx y [ch] segColor ''#000000FF'' z 1 BOTTOM = Inr (k, d')"
        and u': "u' = (cx + 1, ts @ [k], d')"
        unfolding u by (auto simp: bindE_Inr_iff)
      from cr[OF _ this(1)] ju show "?J u'" by (simp add: u u')
    qed
  qed
  have "?J a" by (rule forEachE_invariant[where I = ?J, OF step _ a]) (simp_all add: i)
  with b show ?thesis by (auto split: prod.splits)
qed

lemma placeWord_keeps:
  assumes cr: "\<And>s x y ch col bg z bgp fd i s'.
      I s \<Longrightarrow> createTile s x y ch col bg z bgp fd = Inr (i, s') \<Longrightarrow> I s'"
    and mv: "\<And>s i x y s'. I s \<Longrightarrow> moveTile s i x y = Inr s' \<Longrightarrow> I s'"
    and i: "I (display w)" and e: "placeWord x width tbg z segColor word w = Inr w'"
  shows "I (display w')"
proof (cases "word = []")
  case True
  with e i show ?thesis by (simp add: placeWord_def)
next
  case False
  let ?J = "\<lambda>(ids :: TileId list, d). I d"
  let ?c = "\<lambda>ch (wordTileIds, d).
                    bindE (createTile d (currentX w + int (length wordTileIds)) (currentY w) [ch]
                             segColor tbg z 1 BOTTOM)
                      (\<lambda>(tileId, d'). Inr (wordTileIds @ [tileId], d'))"
  let ?w1 = "(if currentX w - lineStart w + int (length word) > width
                          \<and> length (currentLineWords w) > 0
                       then w\<lparr>currentY := currentY w + 1, currentX := x, lineStart := x,
                              currentLineWords := []\<rparr>
                       else w)"
  from e obtain a where a: "forEachE ?c word ([], display w) = Inr a"
    and b: "(case a of (wordTileIds, d1) \<Rightarrow>
              bindE (forEachE (\<lambda>(tileId, i) d. moveTile d tileId (currentX ?w1 + int i) (currentY ?w1))
                         (zip wordTileIds [0..<length wordTileIds]) d1)
                  (\<lambda>d2. Inr (?w1\<lparr>display := d2,
                                 currentLineWords := currentLineWords ?w1 @ [(wordTileIds, word)],
                                 tileIds := tileIds ?w1 @ wordTileIds,
                                 currentX := currentX ?w1 + int (length word)\<rparr>))) = Inr w'"
    unfolding placeWord_def Let_def bindE_Inr_iff if_not_P[OF False] by blast
  have ja: "?J a"
  proof (rule forEachE_invariant[where I = ?J, OF _ _ a])
    show "?J ([], display w)" using i by simp
  next
    fix ch :: char and u u' :: "TileId list \<times> MatrixDisplay"
    assume ju: "?J u" and c: "?c ch u = Inr u'"
    obtain ts d where u: "u = (ts, d)" by (cases u)
    from c obtain k d' where
      "createTile d (currentX w + int (length ts)) (currentY w) [ch] segColor tbg z 1 BOTTOM = Inr (k, d')"
      and u': "u' = (ts @ [k], d')"
      unfolding u by (auto simp: bindE_Inr_iff)
    from cr[OF _ this(1)] ju show "?J u'" by (simp add: u u')
  qed
  obtain ids d1 where ad: "a = (ids, d1)" by (cases a)
  from b obtain d2 where
    m: "forEachE (\<lambda>(tileId, i) d. moveTile d tileId (currentX ?w1 + int i) (currentY ?w1))
                         (zip ids [0..<length ids]) d1 = Inr d2"
    and w': "display w' = d2"
    unfolding ad by (auto simp: bindE_Inr_iff)
  have "I d2"
  proof (rule forEachE_invariant[where I = I, OF _ _ m])
    show "I d1" using ja by (simp add: ad)
  next
    fix p :: "TileId \<times> nat" and d d'
    assume "I d" and "(case p of (tileId, i) \<Rightarrow> \<lambda>d. moveTile d tileId (currentX ?w1 + int i) (currentY ?w1)) d = Inr d'"
    then show "I d'" using mv by (cases p) auto
  qed
  then show ?thesis by (simp add: w')
qed

lemma createWrappedString_keeps:
  assumes cr: "\<And>s x y ch col bg z bgp fd i s'.
      I s \<Longrightarrow> createTile s x y ch col bg z bgp fd = Inr (i, s') \<Longrightarrow> I s'"
    and mv: "\<And>s i x y s'. I s \<Longrightarrow> moveTile s i x y = Inr s' \<Longrightarrow> I s'"
    and i: "I s" and e: "createWrappedString s x y width height text options = Inr (ids, s')"
  shows "I s'"
proof -
  let ?J = "\<lambda>(ids :: TileId list, d). I d"
  define z where "z = (case optZIndex options of None \<Rightarrow> 1 | Some v \<Rightarrow> v)"
  define bgColor where "bgColor = (case optBackgroundColor options of None \<Rightarrow> ''#00000000'' | Some v \<Rightarrow> v)"
  define tbg where "tbg = (case optTextBackgroundColor options of None \<Rightarrow> ''#00000000'' | Some v \<Rightarrow> v)"
  define fillBox where "fillBox = (case optFillBox options of None \<Rightarrow> False | Some v \<Rightarrow> v)"
  define padding where "padding = (case optPadding options of None \<Rightarrow> 0 | Some v \<Rightarrow> v)"
  let ?row = "\<lambda>py. forEachE
                          (\<lambda>px (ids, d).
                             bindE (createTile d px py '' '' ''#00000000'' bgColor (z - 1) 1 BOTTOM)
                               (\<lambda>(tileId, d'). Inr (ids @ [tileId], d')))
                          [x - padding..x - padding + (width + (padding * 2)) - 1]"
  let ?box = "if fillBox
                then forEachE ?row
                       [y - padding..y - padding + (height + (padding * 2) + 1) - 1] ([], s)
                else Inr ([], s)"
  from e obtain a where a: "?box = Inr a"
    and b: "(case a of (ids, d0) \<Rightarrow>
             bindE (forEachE
                      (\<lambda>(segText, segColor).
                         forEachE (placeWord x width tbg z segColor) (splitWords segText))
                      (textParser d0 text)
                      \<lparr>display = d0, currentX = x, currentY = y, lineStart = x,
                       currentLineWords = [], tileIds = ids\<rparr>)
               (\<lambda>w. Inr (tileIds w, display w))) = Inr (ids, s')"
    unfolding createWrappedString_def Let_def bindE_Inr_iff
      z_def[symmetric] bgColor_def[symmetric] tbg_def[symmetric] fillBox_def[symmetric]
      padding_def[symmetric]
    by blast
  have row: "?J t'" if j: "?J t" and st: "?row py t = Inr t'" for py t t'
  proof (rule forEachE_invariant[where I = ?J, OF _ j st])
    fix px :: int and u u' :: "TileId list \<times> MatrixDisplay"
    assume ju: "?J u"
      and c: "(case u of (ids, d) \<Rightarrow>
                 bindE (createTile d px py '' '' ''#00000000'' bgColor (z - 1) 1 BOTTOM)
                               (\<lambda>(tileId, d'). Inr (ids @ [tileId], d'))) = Inr u'"
    obtain ts d where u: "u = (ts, d)" by (cases u)
    from c obtain k d' where
      "createTile d px py '' '' ''#00000000'' bgColor (z - 1) 1 BOTTOM = Inr (k, d')"
      and u': "u' = (ts @ [k], d')"
      unfolding u by (auto simp: bindE_Inr_iff)
    from cr[OF _ this(1)] ju show "?J u'" by (simp add: u u')
  qed
  have ja: "?J a"
  proof (cases fillBox)
    case True
    with a have fe: "forEachE ?row [y - padding..y - padding + (height + (padding * 2) + 1) - 1] ([], s) = Inr a"
      by simp
    show ?thesis by (rule forEachE_invariant[where I = ?J, OF row _ fe]) (simp_all add: i)
  next
    case False
    with a i show ?thesis by auto
  qed
  obtain ids0 d0 where ad: "a = (ids0, d0)" by (cases a)
  from b obtain w where
    w: "forEachE (\<lambda>(segText, segColor).
                         forEachE (placeWord x width tbg z segColor) (splitWords segText))
                      (textParser d0 text)
                      \<lparr>display = d0, currentX = x, currentY = y, lineStart = x,
                       currentLineWords = [], tileIds = ids0\<rparr> = Inr w"
    and s': "s' = display w"
    unfolding ad by (auto simp: bindE_Inr_iff)
  let ?K = "\<lambda>w. I (display w)"
  have seg: "?K v'" if k: "?K v"
    and st: "(case sg of (segText, segColor) \<Rightarrow>
                forEachE (placeWord x width tbg z segColor) (splitWords segText)) v = Inr v'"
    for sg v v'
  proof -
    obtain segText segColor where sg: "sg = (segText, segColor)" by (cases sg)
    from st have "forEachE (placeWord x width tbg z segColor) (splitWords segText) v = Inr v'"
      by (simp add: sg)
    with _ k show ?thesis
      by (rule forEachE_invariant[where I = ?K]) (rule placeWord_keeps[where I = I, OF cr mv])
  qed
  have "?K w" by (rule forEachE_invariant[where I = ?K, OF seg _ w]) (use ja ad in simp_all)
  then show ?thesis by (simp add: s')
qed


lemma exec_tilesPlaced:
  assumes i: "wellFormed s \<and> tilesPlaced s" and k: "keepsPlace c" and e: "exec c s = Inr s'"
  shows "wellFormed s' \<and> tilesPlaced s'"
proof -
  let ?I = "\<lambda>s. wellFormed s \<and> tilesPlaced s"
  have cr: "?I d'" if "?I d" "createTile d x y ch col bg z bgp fd = Inr (j, d')"
    for d x y ch col bg z bgp fd j d'
    using that createTile_wellFormed[of d x y ch col bg z bgp fd j d']
      createTile_tilesPlaced[of d x y ch col bg z bgp fd j d'] by simp
  have mv: "?I d'" if "?I d" "moveTile d j x y = Inr d'" for d j x y d'
    using that moveTile_wellFormed moveTile_tilesPlaced by blast
  have rm: "?I d'" if "?I d" "removeTile d j = Inr d'" for d j d'
    using that removeTile_wellFormed removeTile_tilesPlaced by blast
  have lg: "?I (logMsg l m d)" if "?I d" for l m d using that by simp
  show ?thesis
  proof (cases c)
    case (CreateTile x y ch col bg z bgp fd)
    with e obtain j where "createTile s x y ch col bg z bgp fd = Inr (j, s')"
      by (auto simp: bindE_Inr_iff)
    with i show ?thesis by (rule cr)
  next
    case (MoveTile j x y)
    with e have "moveTile s j x y = Inr s'" by simp
    with i show ?thesis by (rule mv)
  next
    case (UpdateTile j u)
    with e k have "updateTile s j u = Inr s'" "uX u = None" "uY u = None" by simp_all
    with i show ?thesis using updateTile_wellFormed updateTile_tilesPlaced by blast
  next
    case (RemoveTile j)
    with e have "removeTile s j = Inr s'" by simp
    with i show ?thesis by (rule rm)
  next
    case (SetTiles x y ts)
    with k show ?thesis by simp
  next
    case (EmptyCell x y)
    with e have "emptyCell s x y = Inr s'" by simp
    from emptyCell_keeps[where I = ?I, OF lg rm i this] show ?thesis .
  next
    case (CreateString x y str z)
    with e obtain ids where "createString s x y str z = Inr (ids, s')"
      by (auto simp: bindE_Inr_iff)
    from createString_keeps[where I = ?I, OF cr i this] show ?thesis .
  next
    case (CreateWrappedString x y width height str options)
    with e obtain ids where "createWrappedString s x y width height str options = Inr (ids, s')"
      by (auto simp: bindE_Inr_iff)
    from createWrappedString_keeps[where I = ?I, OF cr mv i this] show ?thesis .
  qed
qed

lemma forEachE_list_all:
  assumes "\<And>a s s'. P a \<Longrightarrow> I s \<Longrightarrow> f a s = Inr s' \<Longrightarrow> I s'"
    and "list_all P as" and "I s" and "forEachE f as s = Inr s'"
  shows "I s'"
  using assms(2,3,4)
proof (induction as arbitrary: s)
  case Nil
  then show ?case by simp
next
  case (Cons a as)
  show ?case
  proof (cases "f a s")
    case (Inl e)
    with Cons.prems(3) show ?thesis by simp
  next
    case (Inr s1)
    have "I s1" using assms(1)[OF _ Cons.prems(2) Inr] Cons.prems(1) by simp
    moreover have "forEachE f as s1 = Inr s'" using Cons.prems(3) Inr by simp
    moreover have "list_all P as" using Cons.prems(1) by simp
    ultimately show ?thesis using Cons.IH by blast
  qed
qed


lemma tilesPlaced_demo: "tilesPlaced demo"
  by (simp add: tilesPlaced_def demo_def)

lemma demoCalls_return: "\<exists>s'. forEachE exec demoCalls demo = Inr s'"
  by (simp add: demoCalls_def demo_def initializeCells_def createTile_def generateTileId_def
      updateTile_def moveTile_def withoutId_def
      assign_def noUpdates_def logMsg_def setTileInCell_def renderIfAuto_def render_def
      insertTile_def Let_def)

text \<open>With a coordinate among the updates, \<open>updateTile\<close> is \<open>moveTile\<close> on the tile that
  \<open>Object.assign\<close> has already written to.\<close>

lemma updateTile_repositions:
  assumes k: "tileMap s i = Some r" and u: "uX u \<noteq> None \<or> uY u \<noteq> None"
  shows "updateTile s i u =
     moveTile ((logMsg VERBOSE (UpdatingTile i) s)\<lparr>heap := (heap s)[r := assign (heap s ! r) u]\<rparr>) i
       (tx (((heap s)[r := assign (heap s ! r) u]) ! r))
       (ty (((heap s)[r := assign (heap s ! r) u]) ! r))"
  using k u unfolding updateTile_def Let_def by simp

lemma wf_demo2_cell:
  "cells demo2 (1, 1) = Some \<lparr>overlay = ''#00000000'', tiles = [0, 1], isDirty = True\<rparr>"
  by (simp add: demo2_def)

section \<open>Claims\<close>

text \<open>
  C10 (no operation throws past the API boundary).  The code does throw: on the 3 by 3
  world, \<open>setTiles(5, 5, [])\<close> reads \<open>tiles\<close> of \<open>undefined\<close>, and so does \<open>moveTile\<close>
  of a tile that \<open>createTile(5, 5, ...)\<close> registered outside the world, where its old
  cell is looked up.  Both end in a \<open>TypeError\<close>.
\<close>

theorem out_of_bounds_calls_throw:
  "setTiles demo 5 5 [] = Inl TypeError
   \<and> bindE (createTile demo 5 5 ''@'' ''#FFFFFFFF'' ''#000000FF'' 1 1 BOTTOM)
        (\<lambda>(i, s). moveTile s i 1 1) = Inl TypeError"
  by (simp add: setTiles_def demo_def initializeCells_def createTile_def generateTileId_def
      logMsg_def setTileInCell_def renderIfAuto_def render_def moveTile_def Let_def)




lemma newTileId_demo: "newTileId demo = ''t_0_0''"
  by (simp add: newTileId_def generateTileId_def demo_def)


text \<open>
  C8 (round trip): for (x, y) inside the world, \<open>createTile\<close> returns an id under which
  \<open>getTile\<close> finds a tile with exactly the attributes passed in; \<open>removeTile\<close> of
  that id returns, and then \<open>getTile\<close> finds nothing.
\<close>

theorem createTile_getTile_removeTile:
  assumes "wellFormed s" and "inBounds s x y"
  shows "\<exists>s1 s2. createTile s x y ch col bg z bgp fd = Inr (newTileId s, s1)
     \<and> getTile s1 (newTileId s) =
         Some \<lparr>tid = newTileId s, tx = x, ty = y, tchar = ch, color = col,
               backgroundColor = bg, zIndex = z, bgPercent = bgp, fillDirection = fd\<rparr>
     \<and> removeTile s1 (newTileId s) = Inr s2
     \<and> getTile s2 (newTileId s) = None"
proof -
  let ?t = "\<lparr>tid = newTileId s, tx = x, ty = y, tchar = ch, color = col,
               backgroundColor = bg, zIndex = z, bgPercent = bgp, fillDirection = fd\<rparr>"
  have d: "\<forall>p \<in> dirtyRects s. cells s p \<noteq> None" using assms(1) by (simp add: wellFormed_def)
  obtain cell where cell: "cells s (x, y) = Some cell" using wf_cell[OF assms] by blast
  obtain s1 where e: "createTile s x y ch col bg z bgp fd = Inr (newTileId s, s1)"
    and f: "heap s1 = heap s @ [?t]"
      "cells s1 = (cells s)((x, y) \<mapsto>
        cell\<lparr>tiles := insertTile (heap s1) (length (heap s)) (tiles cell), isDirty := True\<rparr>)"
      "tileMap s1 = (tileMap s)(newTileId s \<mapsto> length (heap s))"
      "dirtyRects s1 = (if autoRender s then {} else insert (x, y) (dirtyRects s))"
    by (rule createTile_inside[OF assms(2) cell d, of ch col bg z bgp fd])
  have g1: "getTile s1 (newTileId s) = Some ?t" by (simp add: f(1,3) getTile_def)
  have k: "tileMap s1 (newTileId s) = Some (length (heap s))" by (simp add: f(3))
  have hs: "heap s1 ! length (heap s) = ?t" by (simp add: f(1))
  have c1: "cells s1 (tx (heap s1 ! length (heap s)), ty (heap s1 ! length (heap s)))
      = Some (cell\<lparr>tiles := insertTile (heap s1) (length (heap s)) (tiles cell), isDirty := True\<rparr>)"
    unfolding hs by (simp add: f(2))
  have d1: "\<forall>p \<in> dirtyRects s1. cells s1 p \<noteq> None" using d by (simp add: f(2,4))
  obtain s2 where r: "removeTile s1 (newTileId s) = Inr s2"
    and t2: "tileMap s2 = (tileMap s1)(newTileId s := None)"
    by (rule removeTile_known[OF k c1 d1])
  have "getTile s2 (newTileId s) = None" by (simp add: getTile_def t2)
  with e g1 r show ?thesis by blast
qed

lemma inBounds_demo: "inBounds demo 1 1"
  by (simp add: inBounds_def demo_def)

theorem createTile_getTile_removeTile_witness:
  "wellFormed demo \<and> inBounds demo 1 1
   \<and> (\<exists>s1 s2. createTile demo 1 1 ''@'' ''#FFFFFFFF'' ''#000000FF'' 1 1 BOTTOM = Inr (''t_0_0'', s1)
     \<and> getTile s1 ''t_0_0'' =
         Some \<lparr>tid = ''t_0_0'', tx = 1, ty = 1, tchar = ''@'', color = ''#FFFFFFFF'',
               backgroundColor = ''#000000FF'', zIndex = 1, bgPercent = 1, fillDirection = BOTTOM\<rparr>
     \<and> removeTile s1 ''t_0_0'' = Inr s2
     \<and> getTile s2 ''t_0_0'' = None)"
  using createTile_getTile_removeTile[OF wf_demo inBounds_demo, of "''@''" "''#FFFFFFFF''" "''#000000FF''" 1 1 BOTTOM]
    wf_demo inBounds_demo
  unfolding newTileId_demo by simp

text \<open>
  C3 (moveTile moves a known tile; rejected requests are no-ops).  The code breaks this
  for a tile that is known to the tile index but stored outside the world:
  \<open>createTile(5, 5, ...)\<close> on the 3 by 3 world registers such a tile, and
  \<open>moveTile(id, 1, 1)\<close> for the in-bounds destination (1, 1) then reads
  \<open>this.cells[5][5]\<close> and throws a \<open>TypeError\<close> instead of moving the tile.
\<close>

theorem moveTile_stored_outside_throws:
  "createTile demo 5 5 ''@'' ''#FFFFFFFF'' ''#000000FF'' 1 1 BOTTOM =
     Inr (''t_0_0'',
          demo\<lparr>tileIdCounter := 1,
               heap := [\<lparr>tid = ''t_0_0'', tx = 5, ty = 5, tchar = ''@'', color = ''#FFFFFFFF'',
                         backgroundColor = ''#000000FF'', zIndex = 1, bgPercent = 1,
                         fillDirection = BOTTOM\<rparr>],
               tileMap := (tileMap demo)(''t_0_0'' \<mapsto> 0)\<rparr>)
   \<and> inBounds demo 1 1
   \<and> moveTile (demo\<lparr>tileIdCounter := 1,
               heap := [\<lparr>tid = ''t_0_0'', tx = 5, ty = 5, tchar = ''@'', color = ''#FFFFFFFF'',
                         backgroundColor = ''#000000FF'', zIndex = 1, bgPercent = 1,
                         fillDirection = BOTTOM\<rparr>],
               tileMap := (tileMap demo)(''t_0_0'' \<mapsto> 0)\<rparr>) ''t_0_0'' 1 1 = Inl TypeError"
  by (simp add: demo_def initializeCells_def createTile_def generateTileId_def inBounds_def
      logMsg_def setTileInCell_def renderIfAuto_def render_def moveTile_def Let_def)




text \<open>
  C6 as stated fails: create x (z 0) and a (z 1) in one cell, raise x to z 3 with
  \<open>updateTile\<close>, create b (z 1).  \<open>findIndex\<close> stops at x, so b is put in front of x
  and a; the stable sort of \<open>renderCell\<close> keeps b before a, and b is painted first though
  a was inserted first.
\<close>

theorem equal_z_not_fifo_after_update_counterexample:
  "bindE (createTile demo 1 1 ''x'' ''#FFFFFFFF'' ''#000000FF'' 0 1 BOTTOM) (\<lambda>(x, s1).
   bindE (createTile s1 1 1 ''a'' ''#FFFFFFFF'' ''#000000FF'' 1 1 BOTTOM) (\<lambda>(a, s2).
   bindE (updateTile s2 x (noUpdates\<lparr>uZIndex := Some 3\<rparr>)) (\<lambda>s3.
   bindE (createTile s3 1 1 ''b'' ''#FFFFFFFF'' ''#000000FF'' 1 1 BOTTOM) (\<lambda>(b, s4).
     Inr (a, b,
          map_option (\<lambda>c. map (\<lambda>r. tchar (heap s4 ! r)) (tiles c)) (cells s4 (1, 1)),
          map_option (\<lambda>c. map (\<lambda>r. tchar (heap s4 ! r)) (sortedTiles (heap s4) (tiles c)))
            (cells s4 (1, 1)),
          worldCanvas s4 (1, 1))))))
   = Inr (''t_0_1'', ''t_0_2'', Some [''b'', ''x'', ''a''], Some [''b'', ''a'', ''x''],
          [FillBackground ''#000000FF'' BOTTOM 1, DrawGlyph ''b'' ''#FFFFFFFF'',
           FillBackground ''#000000FF'' BOTTOM 1, DrawGlyph ''a'' ''#FFFFFFFF'',
           FillBackground ''#000000FF'' BOTTOM 1, DrawGlyph ''x'' ''#FFFFFFFF''])"
  by (simp add: demo_def initializeCells_def createTile_def generateTileId_def updateTile_def
      assign_def noUpdates_def logMsg_def setTileInCell_def renderIfAuto_def render_def
      renderDirtyCells_def renderCell_def paintTile_def
      insertTile_def sortedTiles_def sort_key_def Let_def)


text \<open>
  C6, amended: when the list of the cell is in ascending z order at the time a tile is
  inserted (\<open>setTileInCell\<close>, which \<open>createTile\<close> and \<open>moveTile\<close> call), the new tile is
  put behind every tile of the cell that has the same z-index, and \<open>renderCell\<close> paints
  it after them.
\<close>

theorem inserted_behind_equal_z:
  assumes "inBounds s (tx (heap s ! r)) (ty (heap s ! r))"
    and "cells s (tx (heap s ! r), ty (heap s ! r)) = Some c"
    and "sorted (map (\<lambda>t. zIndex (heap s ! t)) (tiles c))"
    and "a \<in> set (tiles c)" and "r \<notin> set (tiles c)"
    and "zIndex (heap s ! a) = zIndex (heap s ! r)"
  shows "\<exists>s' c' pre post. setTileInCell s r = Inr s' \<and> heap s' = heap s
     \<and> cells s' (tx (heap s ! r), ty (heap s ! r)) = Some c'
     \<and> sortedTiles (heap s') (tiles c') = pre @ r # post
     \<and> a \<in> set pre \<and> r \<notin> set pre
     \<and> renderCell s' c' =
          concat (map (\<lambda>t. paintTile (heap s' ! t)) pre) @ paintTile (heap s' ! r)
          @ concat (map (\<lambda>t. paintTile (heap s' ! t)) post)
          @ (if overlay c' \<noteq> [] \<and> overlay c' \<noteq> ''#00000000'' then [FillOverlay (overlay c')] else [])"
proof -
  let ?p = "(tx (heap s ! r), ty (heap s ! r))"
  let ?c' = "c\<lparr>tiles := insertTile (heap s) r (tiles c), isDirty := True\<rparr>"
  let ?s' = "s\<lparr>cells := (cells s)(?p \<mapsto> ?c'), dirtyRects := insert ?p (dirtyRects s)\<rparr>"
  have e: "setTileInCell s r = Inr ?s'"
    by (rule setTileInCell_inside[OF refl refl assms(1,2)])
  from insertTile_behind_equal[OF assms(3,4,5,6)]
  obtain pre post where
    p: "sortedTiles (heap s) (insertTile (heap s) r (tiles c)) = pre @ r # post"
      "a \<in> set pre" "r \<notin> set pre" by blast
  have 1: "heap ?s' = heap s" by simp
  have 2: "cells ?s' ?p = Some ?c'" by simp
  have 3: "sortedTiles (heap ?s') (tiles ?c') = pre @ r # post" using p(1) by simp
  have 4: "renderCell ?s' ?c' =
          concat (map (\<lambda>t. paintTile (heap ?s' ! t)) pre) @ paintTile (heap ?s' ! r)
          @ concat (map (\<lambda>t. paintTile (heap ?s' ! t)) post)
          @ (if overlay ?c' \<noteq> [] \<and> overlay ?c' \<noteq> ''#00000000'' then [FillOverlay (overlay ?c')] else [])"
    unfolding renderCell_def 3 by simp
  from e 1 2 3 p(2,3) 4 show ?thesis by blast
qed

theorem inserted_behind_equal_z_witness:
  "inBounds (demo2\<lparr>heap := [tileA, tileB, tileC]\<rparr>) 1 1
   \<and> cells (demo2\<lparr>heap := [tileA, tileB, tileC]\<rparr>) (1, 1)
        = Some \<lparr>overlay = ''#00000000'', tiles = [0, 1], isDirty = True\<rparr>
   \<and> sorted (map (\<lambda>t. zIndex ([tileA, tileB, tileC] ! t)) [0, 1])
   \<and> zIndex tileB = zIndex tileC
   \<and> (\<exists>s' c' pre post. setTileInCell (demo2\<lparr>heap := [tileA, tileB, tileC]\<rparr>) 2 = Inr s'
        \<and> cells s' (1, 1) = Some c'
        \<and> sortedTiles (heap s') (tiles c') = pre @ 2 # post \<and> 1 \<in> set pre)"
proof -
  let ?s = "demo2\<lparr>heap := [tileA, tileB, tileC]\<rparr>"
  have p: "tx (heap ?s ! 2) = 1" "ty (heap ?s ! 2) = 1" by (simp_all add: tileC_def)
  have a: "inBounds ?s (tx (heap ?s ! 2)) (ty (heap ?s ! 2))"
    unfolding p by (simp add: inBounds_def demo2_def demo_def)
  have b: "cells ?s (tx (heap ?s ! 2), ty (heap ?s ! 2))
      = Some \<lparr>overlay = ''#00000000'', tiles = [0, 1], isDirty = True\<rparr>"
    unfolding p by (simp add: demo2_def)
  have c: "sorted (map (\<lambda>t. zIndex (heap ?s ! t)) (tiles \<lparr>overlay = ''#00000000'', tiles = [0, 1], isDirty = True\<rparr>))"
    by (simp add: tileA_def tileB_def)
  have d: "1 \<in> set (tiles \<lparr>overlay = ''#00000000'', tiles = [0, 1::nat], isDirty = True\<rparr>)"
    and f: "2 \<notin> set (tiles \<lparr>overlay = ''#00000000'', tiles = [0, 1::nat], isDirty = True\<rparr>)"
    by simp_all
  have z: "zIndex (heap ?s ! 1) = zIndex (heap ?s ! 2)" by (simp add: tileB_def tileC_def)
  from inserted_behind_equal_z[OF a b c d f z]
  have "\<exists>s' c' pre post. setTileInCell ?s 2 = Inr s'
        \<and> cells s' (1, 1) = Some c'
        \<and> sortedTiles (heap s') (tiles c') = pre @ 2 # post \<and> 1 \<in> set pre"
    unfolding p by blast
  moreover have "inBounds ?s 1 1" using a unfolding p .
  moreover have "cells ?s (1, 1) = Some \<lparr>overlay = ''#00000000'', tiles = [0, 1], isDirty = True\<rparr>"
    using b unfolding p .
  moreover have "sorted (map (\<lambda>t. zIndex ([tileA, tileB, tileC] ! t)) [0, 1])"
    using c by simp
  moreover have "zIndex tileB = zIndex tileC" by (simp add: tileB_def tileC_def)
  ultimately show ?thesis by blast
qed







text \<open>
  C1 (every indexed tile is in exactly one cell, the one at its coordinates) fails on the
  3 by 3 world: after \<open>createTile(1, 1, ...)\<close> and \<open>updateTile(id, {x: 2})\<close> the tile
  has the coordinates (2, 1) and is in the lists of (1, 1) and of (2, 1); nothing is
  logged.
\<close>

theorem updateTile_position_keeps_old_cell_counterexample:
  "bindE (createTile demo 1 1 ''a'' ''#FFFFFFFF'' ''#000000FF'' 1 1 BOTTOM) (\<lambda>(a, s1).
   bindE (updateTile s1 a (noUpdates\<lparr>uX := Some 2\<rparr>)) (\<lambda>s2.
     Inr (a, map_option (\<lambda>t. (tx t, ty t)) (getTile s2 a),
          map_option (\<lambda>c. map (\<lambda>r. tid (heap s2 ! r)) (tiles c)) (cells s2 (1, 1)),
          map_option (\<lambda>c. map (\<lambda>r. tid (heap s2 ! r)) (tiles c)) (cells s2 (2, 1)),
          warnings s2)))
   = Inr (''t_0_0'', Some (2, 1), Some [''t_0_0''], Some [''t_0_0''], [])"
  by (simp add: demo_def initializeCells_def createTile_def generateTileId_def updateTile_def
      moveTile_def withoutId_def getTile_def warnings_def
      assign_def noUpdates_def logMsg_def setTileInCell_def renderIfAuto_def render_def
      insertTile_def Let_def)

text \<open>
  C1, the defect in general: \<open>updateTile\<close> lets \<open>Object.assign\<close> write the new
  coordinates into the tile before \<open>moveTile\<close> looks up the old cell, so \<open>moveTile\<close>
  filters the list of the destination.  Whenever \<open>updateTile\<close> is given coordinates
  inside the world that differ from those of a tile stored in a cell, the call returns
  without a warning, the tile has the new coordinates and is in the list of the new cell,
  and it is still in the list of the cell it came from.
\<close>

theorem updateTile_position_leaves_old_entry:
  assumes wf: "wellFormed s" and k: "tileMap s i = Some r"
    and c: "cells s (tx (heap s ! r), ty (heap s ! r)) = Some c" and rc: "r \<in> set (tiles c)"
    and u: "uX u \<noteq> None \<or> uY u \<noteq> None"
    and nb: "inBounds s (tx (assign (heap s ! r) u)) (ty (assign (heap s ! r) u))"
    and ne: "(tx (assign (heap s ! r) u), ty (assign (heap s ! r) u)) \<noteq> (tx (heap s ! r), ty (heap s ! r))"
  shows "\<exists>s' c1 c2. updateTile s i u = Inr s'
     \<and> tx (heap s' ! r) = tx (assign (heap s ! r) u) \<and> ty (heap s' ! r) = ty (assign (heap s ! r) u)
     \<and> cells s' (tx (heap s ! r), ty (heap s ! r)) = Some c1 \<and> r \<in> set (tiles c1)
     \<and> cells s' (tx (heap s' ! r), ty (heap s' ! r)) = Some c2 \<and> r \<in> set (tiles c2)
     \<and> warnings s' = warnings s"
proof -
  define t where "t = assign (heap s ! r) u"
  define s2 where "s2 = (logMsg VERBOSE (UpdatingTile i) s)\<lparr>heap := (heap s)[r := t]\<rparr>"
  have alloc: "r < length (heap s)" using wf k by (rule wf_index)
  have h2: "heap s2 ! r = t" using alloc by (simp add: s2_def)
  have f2: "tileMap s2 = tileMap s" "cells s2 = cells s" "dirtyRects s2 = dirtyRects s"
    "inBounds s2 = inBounds s" "length (heap s2) = length (heap s)" "warnings s2 = warnings s"
    "autoRender s2 = autoRender s"
    by (simp_all add: s2_def)
  have e: "updateTile s i u = moveTile s2 i (tx (heap s2 ! r)) (ty (heap s2 ! r))"
    unfolding updateTile_repositions[OF k u] s2_def t_def using alloc by simp
  obtain cn where cn: "cells s (tx t, ty t) = Some cn" using wf_cell[OF wf nb] unfolding t_def by blast
  have k2: "tileMap s2 i = Some r" by (simp add: f2 k)
  have a2: "r < length (heap s2)" by (simp add: f2 alloc)
  have n2: "inBounds s2 (tx (heap s2 ! r)) (ty (heap s2 ! r))" using nb by (simp add: f2 h2 t_def)
  have o2: "cells s2 (tx (heap s2 ! r), ty (heap s2 ! r)) = Some cn" by (simp add: f2 h2 cn)
  have d2: "\<forall>p \<in> dirtyRects s2. cells s2 p \<noteq> None" using wf_dirty_all[OF wf] by (simp add: f2)
  let ?dc = "cn\<lparr>tiles := withoutId (heap s2) i (tiles cn), isDirty := True\<rparr>"
  have dc: "((cells s2)((tx (heap s2 ! r), ty (heap s2 ! r)) \<mapsto> ?dc)) (tx (heap s2 ! r), ty (heap s2 ! r))
             = Some ?dc" by simp
  obtain s' where m: "moveTile s2 i (tx (heap s2 ! r)) (ty (heap s2 ! r)) = Inr s'"
    and hs: "heap s' = (heap s2)[r := (heap s2 ! r)\<lparr>tx := tx (heap s2 ! r), ty := ty (heap s2 ! r)\<rparr>]"
    and cs: "cells s' = ((cells s2)((tx (heap s2 ! r), ty (heap s2 ! r)) \<mapsto> ?dc))
             ((tx (heap s2 ! r), ty (heap s2 ! r)) \<mapsto> ?dc\<lparr>tiles := insertTile (heap s') r (tiles ?dc), isDirty := True\<rparr>)"
    and ws: "warnings s' = warnings s2"
    by (rule moveTile_known[OF k2 a2 n2 o2 dc d2])
  have hr: "heap s' ! r = t" using a2 by (simp add: hs h2)
  have old: "cells s' (tx (heap s ! r), ty (heap s ! r)) = Some c"
    using ne c unfolding cs h2 f2 t_def by auto
  have new: "cells s' (tx t, ty t) = Some (?dc\<lparr>tiles := insertTile (heap s') r (tiles ?dc), isDirty := True\<rparr>)"
    unfolding cs h2 by simp
  have rn: "r \<in> set (tiles (?dc\<lparr>tiles := insertTile (heap s') r (tiles ?dc), isDirty := True\<rparr>))"
    by simp
  have r1: "updateTile s i u = Inr s'" using e m by simp
  have r2: "tx (heap s' ! r) = tx (assign (heap s ! r) u)" "ty (heap s' ! r) = ty (assign (heap s ! r) u)"
    using hr by (simp_all add: t_def)
  have r3: "cells s' (tx (heap s' ! r), ty (heap s' ! r))
      = Some (?dc\<lparr>tiles := insertTile (heap s') r (tiles ?dc), isDirty := True\<rparr>)"
    using new by (simp add: hr)
  have r4: "warnings s' = warnings s" using ws f2(6) by simp
  from r1 r2 old rc r3 rn r4 show ?thesis by blast
qed

theorem updateTile_position_leaves_old_entry_witness:
  "wellFormed demo2 \<and> tileMap demo2 ''t_0_0'' = Some 0
   \<and> cells demo2 (1, 1) = Some \<lparr>overlay = ''#00000000'', tiles = [0, 1], isDirty = True\<rparr>
   \<and> inBounds demo2 2 1
   \<and> (\<exists>s' c1 c2. updateTile demo2 ''t_0_0'' (noUpdates\<lparr>uX := Some 2\<rparr>) = Inr s'
      \<and> tx (heap s' ! 0) = 2 \<and> ty (heap s' ! 0) = 1
      \<and> cells s' (1, 1) = Some c1 \<and> 0 \<in> set (tiles c1)
      \<and> cells s' (2, 1) = Some c2 \<and> 0 \<in> set (tiles c2)
      \<and> warnings s' = warnings demo2)"
proof -
  have k: "tileMap demo2 ''t_0_0'' = Some 0" by (simp add: demo2_def)
  have t: "tx (heap demo2 ! 0) = 1" "ty (heap demo2 ! 0) = 1"
    "tx (assign (heap demo2 ! 0) (noUpdates\<lparr>uX := Some 2\<rparr>)) = 2"
    "ty (assign (heap demo2 ! 0) (noUpdates\<lparr>uX := Some 2\<rparr>)) = 1"
    by (simp_all add: demo2_def tileA_def assign_def noUpdates_def)
  have c: "cells demo2 (tx (heap demo2 ! 0), ty (heap demo2 ! 0))
           = Some \<lparr>overlay = ''#00000000'', tiles = [0, 1], isDirty = True\<rparr>"
    unfolding t by (rule wf_demo2_cell)
  have rc: "0 \<in> set (tiles \<lparr>overlay = ''#00000000'', tiles = [0, 1::nat], isDirty = True\<rparr>)" by simp
  have u: "uX (noUpdates\<lparr>uX := Some 2\<rparr>) \<noteq> None \<or> uY (noUpdates\<lparr>uX := Some 2\<rparr>) \<noteq> None" by simp
  have ib: "inBounds demo2 2 1" by (simp add: inBounds_def demo2_def demo_def)
  have nb: "inBounds demo2 (tx (assign (heap demo2 ! 0) (noUpdates\<lparr>uX := Some 2\<rparr>)))
              (ty (assign (heap demo2 ! 0) (noUpdates\<lparr>uX := Some 2\<rparr>)))"
    unfolding t by (rule ib)
  have ne: "(tx (assign (heap demo2 ! 0) (noUpdates\<lparr>uX := Some 2\<rparr>)),
             ty (assign (heap demo2 ! 0) (noUpdates\<lparr>uX := Some 2\<rparr>)))
            \<noteq> (tx (heap demo2 ! 0), ty (heap demo2 ! 0))"
    unfolding t by simp
  from updateTile_position_leaves_old_entry[OF wf_demo2 k c rc u nb ne]
  have "\<exists>s' c1 c2. updateTile demo2 ''t_0_0'' (noUpdates\<lparr>uX := Some 2\<rparr>) = Inr s'
      \<and> tx (heap s' ! 0) = 2 \<and> ty (heap s' ! 0) = 1
      \<and> cells s' (1, 1) = Some c1 \<and> 0 \<in> set (tiles c1)
      \<and> cells s' (2, 1) = Some c2 \<and> 0 \<in> set (tiles c2)
      \<and> warnings s' = warnings demo2"
    unfolding t by metis
  then show ?thesis using wf_demo2 k wf_demo2_cell ib by blast
qed

section \<open>Further properties\<close>

text \<open>
  X1 (createTile and the compositor): a tile created in a cell whose list is ascending
  is painted after every tile of that cell with the same z-index.
\<close>

theorem equal_z_painted_in_insertion_order:
  assumes "wellFormed s" and "inBounds s x y" and "cells s (x, y) = Some c"
    and "sorted (map (\<lambda>t. zIndex (heap s ! t)) (tiles c))"
    and "a \<in> set (tiles c)" and "zIndex (heap s ! a) = z"
  shows "\<exists>s' c' pre post. createTile s x y ch col bg z bgp fd = Inr (newTileId s, s')
     \<and> tileMap s' (newTileId s) = Some (length (heap s))
     \<and> cells s' (x, y) = Some c'
     \<and> sortedTiles (heap s') (tiles c') = pre @ length (heap s) # post
     \<and> a \<in> set pre \<and> length (heap s) \<notin> set pre
     \<and> (autoRender s \<longrightarrow> worldCanvas s' (x, y) = renderCell s' c')"
proof -
  let ?t = "\<lparr>tid = newTileId s, tx = x, ty = y, tchar = ch, color = col,
                 backgroundColor = bg, zIndex = z, bgPercent = bgp, fillDirection = fd\<rparr>"
  have d: "\<forall>p \<in> dirtyRects s. cells s p \<noteq> None" using assms(1) by (simp add: wellFormed_def)
  obtain s' where e: "createTile s x y ch col bg z bgp fd = Inr (newTileId s, s')"
    and h: "heap s' = heap s @ [?t]"
    and cs: "cells s' = (cells s)((x, y) \<mapsto>
        c\<lparr>tiles := insertTile (heap s') (length (heap s)) (tiles c), isDirty := True\<rparr>)"
    and tm: "tileMap s' = (tileMap s)(newTileId s \<mapsto> length (heap s))"
    and cv: "autoRender s \<longrightarrow> worldCanvas s' (x, y) =
        renderCell s' (c\<lparr>tiles := insertTile (heap s') (length (heap s)) (tiles c), isDirty := True\<rparr>)"
    by (rule createTile_inside_painted[OF assms(2,3) d, of ch col bg z bgp fd])
  let ?c' = "c\<lparr>tiles := insertTile (heap s') (length (heap s)) (tiles c), isDirty := True\<rparr>"
  have refs: "\<forall>t \<in> set (tiles c). t < length (heap s)"
    using wf_cell_refs[OF assms(1,3)] by blast
  have zs: "map (\<lambda>t. zIndex (heap s' ! t)) (tiles c) = map (\<lambda>t. zIndex (heap s ! t)) (tiles c)"
    using refs by (simp add: h nth_append)
  have s': "sorted (map (\<lambda>t. zIndex (heap s' ! t)) (tiles c))" unfolding zs by (rule assms(4))
  have fresh: "length (heap s) \<notin> set (tiles c)" using refs by auto
  have za: "zIndex (heap s' ! a) = zIndex (heap s' ! length (heap s))"
    using refs assms(5,6) by (simp add: h nth_append)
  from insertTile_behind_equal[OF s' assms(5) fresh za]
  obtain pre post where
    p: "sortedTiles (heap s') (insertTile (heap s') (length (heap s)) (tiles c)) = pre @ length (heap s) # post"
      "a \<in> set pre" "length (heap s) \<notin> set pre" by blast
  have c': "cells s' (x, y) = Some ?c'" by (simp add: cs)
  have t': "tileMap s' (newTileId s) = Some (length (heap s))" by (simp add: tm)
  have p': "sortedTiles (heap s') (tiles ?c') = pre @ length (heap s) # post" using p(1) by simp
  from e t' c' p' p(2,3) cv show ?thesis by blast
qed

theorem equal_z_painted_in_insertion_order_witness:
  "wellFormed demo2 \<and> inBounds demo2 1 1
   \<and> cells demo2 (1, 1) = Some \<lparr>overlay = ''#00000000'', tiles = [0, 1], isDirty = True\<rparr>
   \<and> sorted (map (\<lambda>t. zIndex (heap demo2 ! t)) [0, 1])
   \<and> zIndex (heap demo2 ! 1) = 1
   \<and> (\<exists>s' c' pre post. createTile demo2 1 1 ''c'' ''#FFFFFFFF'' ''#000000FF'' 1 1 BOTTOM = Inr (''t_0_2'', s')
        \<and> tileMap s' ''t_0_2'' = Some 2 \<and> cells s' (1, 1) = Some c'
        \<and> sortedTiles (heap s') (tiles c') = pre @ 2 # post \<and> 1 \<in> set pre)"
proof -
  have a: "inBounds demo2 1 1" by (simp add: inBounds_def demo2_def demo_def)
  have b: "cells demo2 (1, 1) = Some \<lparr>overlay = ''#00000000'', tiles = [0, 1], isDirty = True\<rparr>"
    by (simp add: demo2_def)
  have c: "sorted (map (\<lambda>t. zIndex (heap demo2 ! t)) (tiles \<lparr>overlay = ''#00000000'', tiles = [0, 1], isDirty = True\<rparr>))"
    by (simp add: demo2_def tileA_def tileB_def)
  have d: "1 \<in> set (tiles \<lparr>overlay = ''#00000000'', tiles = [0, 1::nat], isDirty = True\<rparr>)" by simp
  have z: "zIndex (heap demo2 ! 1) = 1" by (simp add: demo2_def tileB_def)
  have n: "newTileId demo2 = ''t_0_2''" "length (heap demo2) = 2"
    by (simp_all add: newTileId_def generateTileId_def demo2_def demo_def)
  from equal_z_painted_in_insertion_order[OF wf_demo2 a b c d z, of "''c''" "''#FFFFFFFF''" "''#000000FF''" 1 BOTTOM]
  have "\<exists>s' c' pre post. createTile demo2 1 1 ''c'' ''#FFFFFFFF'' ''#000000FF'' 1 1 BOTTOM = Inr (''t_0_2'', s')
        \<and> tileMap s' ''t_0_2'' = Some 2 \<and> cells s' (1, 1) = Some c'
        \<and> sortedTiles (heap s') (tiles c') = pre @ 2 # post \<and> 1 \<in> set pre"
    unfolding n by blast
  then show ?thesis using wf_demo2 a b c z by simp
qed

text \<open>
  Placement (the part of C1 that holds): from a state in which every tile of the index
  carries its id, is once in the list of the cell at its stored coordinates and in no
  other list, every sequence of calls of \<open>createTile\<close>, \<open>moveTile\<close>, \<open>removeTile\<close>,
  \<open>emptyCell\<close>, \<open>createString\<close>, \<open>createWrappedString\<close> and of \<open>updateTile\<close> without
  coordinates that returns leads to such a state.  A tile created outside the world is in
  the index and in no list.
\<close>

theorem indexed_tiles_stay_placed:
  assumes "wellFormed s" and "tilesPlaced s" and "list_all keepsPlace calls"
    and "forEachE exec calls s = Inr s'"
  shows "wellFormed s' \<and> tilesPlaced s'"
  by (rule forEachE_list_all[where I = "\<lambda>s. wellFormed s \<and> tilesPlaced s" and P = keepsPlace,
        OF exec_tilesPlaced assms(3) _ assms(4)]) (simp_all add: assms)

theorem indexed_tiles_stay_placed_witness:
  "wellFormed demo \<and> tilesPlaced demo \<and> list_all keepsPlace demoCalls
   \<and> (\<exists>s'. forEachE exec demoCalls demo = Inr s' \<and> wellFormed s' \<and> tilesPlaced s')"
proof -
  have k: "list_all keepsPlace demoCalls" by (simp add: demoCalls_def noUpdates_def)
  from demoCalls_return obtain s' where e: "forEachE exec demoCalls demo = Inr s'" ..
  from indexed_tiles_stay_placed[OF wf_demo tilesPlaced_demo k e] e wf_demo tilesPlaced_demo k
  show ?thesis by blast
qed
end
